theory Spec2Isabelle
  imports Main "HOL-Library.Word"
begin

section \<open>Body cards of the HTTP Toolkit UI\<close>

text \<open>
  The development embeds three source files: the shared body-card components
  (\<^verbatim>\<open>body-card-components.tsx\<close>), the read-only response body card
  (\<^verbatim>\<open>SentResponseBodyCard\<close>) and the editable breakpoint body card
  (\<^verbatim>\<open>HttpBreakpointBodyCard\<close>). Header and URL text is a \<^typ>\<open>string\<close>; a
  content type is the string tag the TypeScript union stands for at run time.
\<close>

subsection \<open>JavaScript values and errors\<close>

datatype js_error = TypeError

type_synonym byte = "8 word"

type_synonym ViewableContentType = string

type_synonym EditableContentType = string

definition dquote :: char where
  "dquote = CHR 0x22"

definition backslash :: char where
  "backslash = CHR 0x5C"

definition slash :: char where
  "slash = CHR ''/''"

definition dot :: char where
  "dot = CHR ''.''"

text \<open>\<^verbatim>\<open>value || ""\<close>: an absent (or empty) string becomes the empty string.\<close>

definition or_empty :: "string option \<Rightarrow> string" where
  "or_empty v = (case v of None \<Rightarrow> [] | Some s \<Rightarrow> s)"

text \<open>
  \<^verbatim>\<open>String.prototype.split\<close> with a one-character separator: the text is cut at every
  occurrence, so the result has one segment more than there are separators.
\<close>

fun split_on :: "char \<Rightarrow> string \<Rightarrow> string list" where
  "split_on sep [] = [[]]"
| "split_on sep (c # cs) =
     (if c = sep then [] # split_on sep cs
      else (case split_on sep cs of
              seg # segs \<Rightarrow> (c # seg) # segs
            | [] \<Rightarrow> [[c]]))"

text \<open>lodash's \<^verbatim>\<open>_.last\<close>: \<^verbatim>\<open>undefined\<close> on an empty array.\<close>

definition lodash_last :: "'a list \<Rightarrow> 'a option" where
  "lodash_last xs = (if xs = [] then None else Some (last xs))"

text \<open>
  lodash's \<^verbatim>\<open>_.includes\<close> over an array of content-type tags, asked about a value that
  may be \<^verbatim>\<open>undefined\<close>: no tag equals \<^verbatim>\<open>undefined\<close>.
\<close>

definition lodash_includes :: "string list \<Rightarrow> string option \<Rightarrow> bool" where
  "lodash_includes xs v = (case v of None \<Rightarrow> False | Some c \<Rightarrow> c \<in> set xs)"

subsection \<open>The download file name\<close>

text \<open>The literal start of the pattern \<^verbatim>\<open>/ filename="([^"]+)"/\<close>.\<close>

definition filename_literal :: string where
  "filename_literal = '' filename='' @ [dquote]"

text \<open>
  The pattern tried at the start of the text: the literal, then the longest run of
  characters other than the double quote (at least one), then a double quote. The run is
  greedy and cannot hold a quote, so giving characters back never helps: the attempt
  succeeds exactly when the run is non-empty and a quote follows it.
\<close>

definition filename_match_here :: "string \<Rightarrow> string option" where
  "filename_match_here s =
     (if take (length filename_literal) s = filename_literal then
        (let r = drop (length filename_literal) s;
             g = takeWhile (\<lambda>c. c \<noteq> dquote) r
         in if g \<noteq> [] \<and> dropWhile (\<lambda>c. c \<noteq> dquote) r \<noteq> [] then Some g else None)
      else None)"

text \<open>
  \<^verbatim>\<open>RegExp.prototype.exec\<close> without the global flag: the first position where the
  pattern matches wins; the result is capture group 1, or nothing.
\<close>

fun filename_regex_exec :: "string \<Rightarrow> string option" where
  "filename_regex_exec [] = filename_match_here []"
| "filename_regex_exec (c # cs) =
     (case filename_match_here (c # cs) of
        Some g \<Rightarrow> Some g
      | None \<Rightarrow> filename_regex_exec cs)"

text \<open>
  \<^verbatim>\<open>getBodyDownloadFilename(url, headers)\<close>. The header lookup \<^verbatim>\<open>getHeaderValue\<close> lives
  outside the embedded files and is a parameter. The non-null assertion after the first
  \<^verbatim>\<open>_.last\<close> is a dereference of \<^verbatim>\<open>undefined\<close> when the array is empty.
\<close>

definition getBodyDownloadFilename ::
  "('h \<Rightarrow> string \<Rightarrow> string option) \<Rightarrow> string \<Rightarrow> 'h \<Rightarrow> js_error + string option" where
  "getBodyDownloadFilename getHeaderValue url headers =
     (let contentDisposition = or_empty (getHeaderValue headers ''content-disposition'');
          filenameMatch = filename_regex_exec contentDisposition
      in case filenameMatch of
           Some suggestedFilename \<Rightarrow>
             (case lodash_last (split_on slash suggestedFilename) of
                None \<Rightarrow> Inl TypeError
              | Some seg \<Rightarrow> Inr (lodash_last (split_on backslash seg)))
         | None \<Rightarrow>
             (case lodash_last (split_on slash url) of
                Some urlBaseName \<Rightarrow>
                  if dot \<in> set urlBaseName then Inr (Some urlBaseName) else Inr None
              | None \<Rightarrow> Inr None))"

text \<open>
  The notions the result is described with, to compare the code with: the part of a text
  after its last separator; a quoted file name directive standing right after \<open>pre\<close>
  (the literal, a non-empty file name without a double quote, a double quote); the file
  name of the first directive of a text; a text without a directive.
\<close>

definition after_last :: "char \<Rightarrow> string \<Rightarrow> string" where
  "after_last sep s = rev (takeWhile (\<lambda>c. c \<noteq> sep) (rev s))"

definition directive_at :: "string \<Rightarrow> string \<Rightarrow> string \<Rightarrow> bool" where
  "directive_at s pre g \<longleftrightarrow>
     g \<noteq> [] \<and> dquote \<notin> set g \<and> (\<exists>post. s = pre @ filename_literal @ g @ dquote # post)"

definition first_directive :: "string \<Rightarrow> string \<Rightarrow> bool" where
  "first_directive s g \<longleftrightarrow>
     (\<exists>pre. directive_at s pre g \<and>
        (\<forall>pre' g'. directive_at s pre' g' \<longrightarrow> length pre \<le> length pre'))"

definition no_directive :: "string \<Rightarrow> bool" where
  "no_directive s \<longleftrightarrow> (\<forall>pre g. \<not> directive_at s pre g)"

subsection \<open>The read-only response body card\<close>

text \<open>
  Modelled from the spec: the declarations of \<^verbatim>\<open>ExchangeMessage\<close>, \<^verbatim>\<open>MessageBody\<close> and
  \<^verbatim>\<open>ErrorLike\<close>, which the card imports. The fields are the ones the card reads: the
  spec's Payload with its raw bytes, decoded bytes, decoding error and declared headers.
  The encoded body is a \<^verbatim>\<open>Buffer\<close> or some other value (\<^verbatim>\<open>Buffer.isBuffer\<close> tells them
  apart); \<^verbatim>\<open>headers\<close> is an object indexed by header name.
\<close>

record ErrorLike =
  error_code :: "string option"
  error_message :: "string option"

datatype encoded_body = Buffer "byte list" | NotABuffer

record MessageBody =
  encoded :: encoded_body
  decoded :: "byte list option"
  decodingError :: "ErrorLike option"

record ('v, 'r) ExchangeMessage =
  message_id :: string
  contentType :: ViewableContentType
  headers :: "string \<Rightarrow> 'v option"
  rawHeaders :: 'r
  body :: MessageBody

text \<open>
  The functions the card calls that live outside the embedded files, as parameters:
  \<^verbatim>\<open>getCompatibleTypes\<close>, \<^verbatim>\<open>lastHeader\<close> and \<^verbatim>\<open>getHeaderValue\<close>.
\<close>

record 'v collaborators =
  getCompatibleTypes ::
    "ViewableContentType \<Rightarrow> string option \<Rightarrow> MessageBody \<Rightarrow> ViewableContentType list"
  lastHeader :: "'v option \<Rightarrow> string option"
  getHeaderValue :: "(string \<Rightarrow> 'v option) \<Rightarrow> string \<Rightarrow> string option"

text \<open>
  The card's props that carry data (\<^verbatim>\<open>url\<close>, \<^verbatim>\<open>message\<close>, \<^verbatim>\<open>isPaidUser\<close>); the layout
  flags, the callbacks and the editor portal are left out. The prop \<^verbatim>\<open>message\<close> is
  declared as a message, but the class tests it for absence in \<^verbatim>\<open>componentDidMount\<close>, so
  it is taken as it may be at run time: there or not.
\<close>

record ('v, 'r) SentResponseBodyProps =
  url :: string
  props_message :: "('v, 'r) ExchangeMessage option"
  isPaidUser :: bool

definition ENCODED_DATA_CONTENT_TYPES :: "ViewableContentType list" where
  "ENCODED_DATA_CONTENT_TYPES = [''text'', ''raw'', ''base64'', ''image'']"

text \<open>What \<^verbatim>\<open>render\<close> hands to \<^verbatim>\<open>ReadonlyBodyCardHeader\<close>, \<^verbatim>\<open>ContentViewer\<close> and
  \<^verbatim>\<open>BodyDecodingErrorBanner\<close>.\<close>

record ReadonlyBodyCardHeaderProps =
  header_body :: "byte list option"
  mimeType :: "string option"
  downloadFilename :: "string option"
  title :: string
  selectedContentType :: ViewableContentType
  contentTypeOptions :: "ViewableContentType list"
  header_isPaidUser :: bool

record ContentViewerProps =
  contentId :: string
  rawContentType :: "string option"
  viewer_contentType :: ViewableContentType
  children :: "byte list"

record 'r BodyDecodingErrorBannerProps =
  banner_error :: ErrorLike
  banner_headers :: 'r

datatype 'r body_card =
    DecodedCard ReadonlyBodyCardHeaderProps ContentViewerProps
  | FailedCard ReadonlyBodyCardHeaderProps "'r BodyDecodingErrorBannerProps"
      "ContentViewerProps option"
  | LoadingCard ReadonlyBodyCardHeaderProps

text \<open>
  \<^verbatim>\<open>_.includes(options, selected) ? selected! : fallback\<close>. The assertion \<^verbatim>\<open>!\<close> does nothing
  at run time; \<^verbatim>\<open>undefined\<close> is never included, so the \<open>None\<close> case of the first branch
  is never taken.
\<close>

definition included_or :: "string list \<Rightarrow> string option \<Rightarrow> string \<Rightarrow> string" where
  "included_or options selected fallback =
     (if lodash_includes options selected
      then (case selected of Some c \<Rightarrow> c | None \<Rightarrow> fallback)
      else fallback)"

text \<open>
  \<^verbatim>\<open>render\<close>. Its first use of the message is \<^verbatim>\<open>message.contentType\<close>, before any test:
  with no message that is a \<^verbatim>\<open>TypeError\<close> and nothing is rendered.
\<close>

definition render ::
  "'v collaborators \<Rightarrow> ('v, 'r) SentResponseBodyProps \<Rightarrow> ViewableContentType option \<Rightarrow>
     js_error + 'r body_card" where
  "render E props selected =
     (case props_message props of
        None \<Rightarrow> Inl TypeError
      | Some message \<Rightarrow>
         (let compatibleContentTypes =
                getCompatibleTypes E (contentType message)
                  (lastHeader E (headers message ''content-type'')) (body message);
              decodedContentType =
                included_or compatibleContentTypes selected (contentType message);
              decodedBody = decoded (body message)
          in case decodedBody of
               Some buf \<Rightarrow>
                 (case getBodyDownloadFilename (getHeaderValue E) (url props) (headers message) of
                    Inl e \<Rightarrow> Inl e
                  | Inr filename \<Rightarrow>
                      Inr (DecodedCard
                        \<lparr> header_body = Some buf,
                          mimeType = getHeaderValue E (headers message) ''content-type'',
                          downloadFilename = filename,
                          title = ''Response body'',
                          selectedContentType = decodedContentType,
                          contentTypeOptions = compatibleContentTypes,
                          header_isPaidUser = isPaidUser props \<rparr>
                        \<lparr> contentId = message_id message,
                          rawContentType = lastHeader E (headers message ''content-type''),
                          viewer_contentType = decodedContentType,
                          children = buf \<rparr>))
             | None \<Rightarrow>
                 (case decodingError (body message) of
                    Some error \<Rightarrow>
                      (let encodedBody =
                             (case encoded (body message) of
                                Buffer b \<Rightarrow> Some b
                              | NotABuffer \<Rightarrow> None);
                           encodedDataContentType =
                             included_or ENCODED_DATA_CONTENT_TYPES selected ''text''
                       in case getBodyDownloadFilename (getHeaderValue E) (url props)
                                 (headers message) of
                            Inl e \<Rightarrow> Inl e
                          | Inr filename \<Rightarrow>
                              Inr (FailedCard
                                \<lparr> header_body = encodedBody,
                                  mimeType = Some ''application/octet-stream'',
                                  downloadFilename = filename,
                                  title = ''Response body'',
                                  selectedContentType = encodedDataContentType,
                                  contentTypeOptions = ENCODED_DATA_CONTENT_TYPES,
                                  header_isPaidUser = isPaidUser props \<rparr>
                                \<lparr> banner_error = error,
                                  banner_headers = rawHeaders message \<rparr>
                                (case encodedBody of
                                   Some b \<Rightarrow>
                                     Some \<lparr> contentId = message_id message,
                                            rawContentType = None,
                                            viewer_contentType = encodedDataContentType,
                                            children = b \<rparr>
                                 | None \<Rightarrow> None)))
                  | None \<Rightarrow>
                      Inr (LoadingCard
                        \<lparr> header_body = None,
                          mimeType = None,
                          downloadFilename = None,
                          title = ''Response body'',
                          selectedContentType = decodedContentType,
                          contentTypeOptions = compatibleContentTypes,
                          header_isPaidUser = isPaidUser props \<rparr>))))"

text \<open>The three decoding states of the specification, read off the card that was rendered.\<close>

datatype DecodingState = Pending | Decoded | Failed

fun card_state :: "'r body_card \<Rightarrow> DecodingState" where
  "card_state (DecodedCard h v) = Decoded"
| "card_state (FailedCard h b v) = Failed"
| "card_state (LoadingCard h) = Pending"

fun card_header :: "'r body_card \<Rightarrow> ReadonlyBodyCardHeaderProps" where
  "card_header (DecodedCard h v) = h"
| "card_header (FailedCard h b v) = h"
| "card_header (LoadingCard h) = h"

definition payload_state :: "MessageBody \<Rightarrow> DecodingState" where
  "payload_state b =
     (if decoded b \<noteq> None then Decoded
      else if decodingError b \<noteq> None then Failed
      else Pending)"

definition render_state ::
  "'v collaborators \<Rightarrow> ('v, 'r) SentResponseBodyProps \<Rightarrow> ViewableContentType option \<Rightarrow>
     js_error + DecodingState" where
  "render_state E props selected =
     (case render E props selected of Inl e \<Rightarrow> Inl e | Inr rendered \<Rightarrow> Inr (card_state rendered))"

text \<open>
  The card's one piece of state is \<^verbatim>\<open>selectedContentType\<close>. \<^verbatim>\<open>onChangeContentType\<close> reads
  \<^verbatim>\<open>this.props.message.contentType\<close>; the mount-time \<^verbatim>\<open>autorun\<close> tests the message for
  absence, so these two take the message as it may be at run time. Reading a property of
  an absent message is a \<^verbatim>\<open>TypeError\<close>, raised before the assignment.
\<close>

definition onChangeContentType ::
  "('v, 'r) ExchangeMessage option \<Rightarrow> ViewableContentType option \<Rightarrow>
     js_error + ViewableContentType option" where
  "onChangeContentType msg contentType_arg =
     (case msg of
        None \<Rightarrow> Inl TypeError
      | Some m \<Rightarrow>
          if contentType_arg = Some (contentType m) then Inr None
          else Inr contentType_arg)"

text \<open>
  The body of the \<^verbatim>\<open>autorun\<close> of \<^verbatim>\<open>componentDidMount\<close>: it runs at mount and again each
  time \<^verbatim>\<open>this.props.message\<close> changes, and gives the new \<^verbatim>\<open>selectedContentType\<close>.
\<close>

definition autorun_message ::
  "('v, 'r) ExchangeMessage option \<Rightarrow> ViewableContentType option \<Rightarrow>
     js_error + ViewableContentType option" where
  "autorun_message msg selected =
     (case msg of
        None \<Rightarrow> onChangeContentType msg None
      | Some m \<Rightarrow> Inr selected)"

subsection \<open>The editable breakpoint body card\<close>

text \<open>
  The editor's text is a JavaScript string: a sequence of UTF-16 code units. The card
  picks one of two encodings for it.
\<close>

type_synonym code_unit = "16 word"

type_synonym js_string = "code_unit list"

datatype TextEncoding = Utf8 | Binary

text \<open>
  Modelled from the spec: the standard UTF-8 mapping that \<^verbatim>\<open>toText\<close> and \<^verbatim>\<open>fromText\<close>
  use for the \<^verbatim>\<open>utf8\<close> choice (the card imports \<^verbatim>\<open>bufferToString\<close> and
  \<^verbatim>\<open>stringToBuffer\<close>). \<open>utf8_next\<close> reads one well-formed sequence from the head of the
  bytes: the code point and the bytes after it, or nothing when the head is ill-formed
  (a stray continuation byte, an overlong form, a surrogate, a value past U+10FFFF, a
  sequence cut short).
\<close>

definition is_continuation :: "byte \<Rightarrow> bool" where
  "is_continuation b \<longleftrightarrow> 0x80 \<le> unat b \<and> unat b \<le> 0xBF"

definition second_ok :: "byte \<Rightarrow> byte \<Rightarrow> bool" where
  "second_ok lead b \<longleftrightarrow>
     (if unat lead = 0xE0 then 0xA0 else if unat lead = 0xF0 then 0x90 else 0x80) \<le> unat b
     \<and> unat b \<le> (if unat lead = 0xED then 0x9F else if unat lead = 0xF4 then 0x8F else 0xBF)"

fun utf8_next :: "byte list \<Rightarrow> (nat \<times> byte list) option" where
  "utf8_next [] = None"
| "utf8_next (b0 # bs) =
     (if unat b0 < 0x80 then Some (unat b0, bs)
      else if 0xC2 \<le> unat b0 \<and> unat b0 \<le> 0xDF then
        (case bs of
           b1 # r \<Rightarrow>
             if is_continuation b1
             then Some ((unat b0 - 0xC0) * 0x40 + (unat b1 - 0x80), r)
             else None
         | _ \<Rightarrow> None)
      else if 0xE0 \<le> unat b0 \<and> unat b0 \<le> 0xEF then
        (case bs of
           b1 # b2 # r \<Rightarrow>
             if second_ok b0 b1 \<and> is_continuation b2
             then Some ((unat b0 - 0xE0) * 0x1000 + (unat b1 - 0x80) * 0x40
                        + (unat b2 - 0x80), r)
             else None
         | _ \<Rightarrow> None)
      else if 0xF0 \<le> unat b0 \<and> unat b0 \<le> 0xF4 then
        (case bs of
           b1 # b2 # b3 # r \<Rightarrow>
             if second_ok b0 b1 \<and> is_continuation b2 \<and> is_continuation b3
             then Some ((unat b0 - 0xF0) * 0x40000 + (unat b1 - 0x80) * 0x1000
                        + (unat b2 - 0x80) * 0x40 + (unat b3 - 0x80), r)
             else None
         | _ \<Rightarrow> None)
      else None)"

text \<open>
  Modelled from the spec: decoding with replacement. An ill-formed head becomes U+FFFD and
  the decoder moves past the longest prefix of it that could still have started a
  well-formed sequence (\<open>utf8_skip\<close>), at least one byte.
\<close>

definition utf8_skip :: "byte list \<Rightarrow> nat" where
  "utf8_skip bs =
     (case bs of
        [] \<Rightarrow> 0
      | b0 # r0 \<Rightarrow>
          if 0xE0 \<le> unat b0 \<and> unat b0 \<le> 0xF4 then
            (case r0 of
               b1 # r1 \<Rightarrow>
                 if second_ok b0 b1 then
                   (if 0xF0 \<le> unat b0 then
                      (case r1 of
                         b2 # r2 \<Rightarrow> if is_continuation b2 then 3 else 2
                       | [] \<Rightarrow> 2)
                    else 2)
                 else 1
             | [] \<Rightarrow> 1)
          else 1)"

function utf8_decode :: "byte list \<Rightarrow> nat list" where
  "utf8_decode bs =
     (if bs = [] then []
      else (case utf8_next bs of
              Some (cp, rest) \<Rightarrow> cp # utf8_decode rest
            | None \<Rightarrow> 0xFFFD # utf8_decode (drop (utf8_skip bs) bs)))"
  by pat_completeness auto
termination
proof (relation "measure length")
  show "wf (measure length)" by simp
next
  fix bs :: "byte list" and x2 cp rest
  assume "utf8_next bs = Some x2" and "(cp, rest) = x2"
  then have "utf8_next bs = Some (cp, rest)" by simp
  then have "length rest < length bs"
    by (cases bs) (auto split: if_splits list.splits)
  then show "(rest, bs) \<in> measure length" by simp
next
  fix bs :: "byte list"
  assume "bs \<noteq> []"
  then have "0 < utf8_skip bs"
    by (auto simp: utf8_skip_def split: list.splits)
  with \<open>bs \<noteq> []\<close> show "(drop (utf8_skip bs) bs, bs) \<in> measure length" by simp
qed

declare utf8_decode.simps [simp del]

text \<open>
  Modelled from the spec: the words "decodes without replacement/invalid sequences".
\<close>

function utf8_wellformed :: "byte list \<Rightarrow> bool" where
  "utf8_wellformed bs =
     (if bs = [] then True
      else (case utf8_next bs of
              Some (cp, rest) \<Rightarrow> utf8_wellformed rest
            | None \<Rightarrow> False))"
  by pat_completeness auto
termination
proof (relation "measure length")
  show "wf (measure length)" by simp
next
  fix bs :: "byte list" and x2 cp rest
  assume "utf8_next bs = Some x2" and "(cp, rest) = x2"
  then have "utf8_next bs = Some (cp, rest)" by simp
  then have "length rest < length bs"
    by (cases bs) (auto split: if_splits list.splits)
  then show "(rest, bs) \<in> measure length" by simp
qed

declare utf8_wellformed.simps [simp del]

text \<open>Modelled from the spec: the standard UTF-8 form of one code point, and of a text.\<close>

definition utf8_encode_cp :: "nat \<Rightarrow> byte list" where
  "utf8_encode_cp cp =
     (if cp < 0x80 then [of_nat cp]
      else if cp < 0x800 then [of_nat (0xC0 + cp div 0x40), of_nat (0x80 + cp mod 0x40)]
      else if cp < 0x10000 then
        [of_nat (0xE0 + cp div 0x1000), of_nat (0x80 + cp div 0x40 mod 0x40),
         of_nat (0x80 + cp mod 0x40)]
      else
        [of_nat (0xF0 + cp div 0x40000), of_nat (0x80 + cp div 0x1000 mod 0x40),
         of_nat (0x80 + cp div 0x40 mod 0x40), of_nat (0x80 + cp mod 0x40)])"

definition utf8_encode :: "nat list \<Rightarrow> byte list" where
  "utf8_encode cps = concat (map utf8_encode_cp cps)"

text \<open>
  Modelled from the spec: a JavaScript string holds a code point past U+FFFF as a
  surrogate pair; a surrogate on its own is read as U+FFFD when the string is encoded.
\<close>

definition is_high_surrogate :: "code_unit \<Rightarrow> bool" where
  "is_high_surrogate u \<longleftrightarrow> 0xD800 \<le> unat u \<and> unat u \<le> 0xDBFF"

definition is_low_surrogate :: "code_unit \<Rightarrow> bool" where
  "is_low_surrogate u \<longleftrightarrow> 0xDC00 \<le> unat u \<and> unat u \<le> 0xDFFF"

definition utf16_units :: "nat \<Rightarrow> js_string" where
  "utf16_units cp =
     (if cp < 0x10000 then [of_nat cp]
      else [of_nat (0xD800 + (cp - 0x10000) div 0x400),
            of_nat (0xDC00 + (cp - 0x10000) mod 0x400)])"

definition utf16_encode :: "nat list \<Rightarrow> js_string" where
  "utf16_encode cps = concat (map utf16_units cps)"

definition lone_unit :: "code_unit \<Rightarrow> nat" where
  "lone_unit u = (if is_high_surrogate u \<or> is_low_surrogate u then 0xFFFD else unat u)"

fun utf16_decode :: "js_string \<Rightarrow> nat list" where
  "utf16_decode [] = []"
| "utf16_decode [u] = [lone_unit u]"
| "utf16_decode (u # v # r) =
     (if is_high_surrogate u \<and> is_low_surrogate v
      then (0x10000 + (unat u - 0xD800) * 0x400 + (unat v - 0xDC00)) # utf16_decode r
      else lone_unit u # utf16_decode (v # r))"

text \<open>
  Modelled from the spec: \<^verbatim>\<open>classify\<close>, which the card imports as \<^verbatim>\<open>isProbablyUtf8\<close>. The
  bytes are plausibly UTF-8 text when they decode without an invalid sequence and are
  not dominated by control bytes other than tab, line feed and carriage return: more
  than half of the bytes being such control bytes is domination.
\<close>

definition is_control :: "byte \<Rightarrow> bool" where
  "is_control b \<longleftrightarrow> (unat b < 0x20 \<and> unat b \<noteq> 0x09 \<and> unat b \<noteq> 0x0A \<and> unat b \<noteq> 0x0D) \<or> unat b = 0x7F"

definition control_dominated :: "byte list \<Rightarrow> bool" where
  "control_dominated bs \<longleftrightarrow> length bs < 2 * length (filter is_control bs)"

definition isProbablyUtf8 :: "byte list \<Rightarrow> bool" where
  "isProbablyUtf8 bs \<longleftrightarrow> utf8_wellformed bs \<and> \<not> control_dominated bs"

text \<open>
  Modelled from the spec: \<^verbatim>\<open>toText\<close> and \<^verbatim>\<open>fromText\<close>, imported as \<^verbatim>\<open>bufferToString\<close> and
  \<^verbatim>\<open>stringToBuffer\<close>. The binary-preserving choice maps one byte to one character with
  the same number (Latin-1) and a character back to its low eight bits.
\<close>

definition bufferToString :: "byte list \<Rightarrow> TextEncoding \<Rightarrow> js_string" where
  "bufferToString bs enc =
     (case enc of
        Utf8 \<Rightarrow> utf16_encode (utf8_decode bs)
      | Binary \<Rightarrow> map ucast bs)"

definition stringToBuffer :: "js_string \<Rightarrow> TextEncoding \<Rightarrow> byte list" where
  "stringToBuffer s enc =
     (case enc of
        Utf8 \<Rightarrow> utf8_encode (utf16_decode s)
      | Binary \<Rightarrow> map ucast s)"

text \<open>The computed property \<^verbatim>\<open>textEncoding\<close> of the card.\<close>

definition textEncoding :: "byte list \<Rightarrow> TextEncoding" where
  "textEncoding buffer = (if isProbablyUtf8 buffer then Utf8 else Binary)"

text \<open>\<^verbatim>\<open>bodyString\<close> of \<^verbatim>\<open>render\<close>: the text handed to the editor.\<close>

definition bodyString :: "byte list \<Rightarrow> js_string" where
  "bodyString buffer = bufferToString buffer (textEncoding buffer)"

text \<open>
  \<^verbatim>\<open>onBodyChange\<close>: the buffer that is passed to \<^verbatim>\<open>props.onChange\<close> for a text coming
  from the editor or from the format button.
\<close>

definition onBodyChange :: "byte list \<Rightarrow> js_string \<Rightarrow> byte list" where
  "onBodyChange buffer text = stringToBuffer text (textEncoding buffer)"

text \<open>
  The card's state: the observable \<^verbatim>\<open>contentType\<close>, \<^verbatim>\<open>'text'\<close> at first, and the value
  the running \<^verbatim>\<open>reaction\<close> saw last (\<open>None\<close> while no reaction runs).
\<close>

record BreakpointCardState =
  card_contentType :: EditableContentType
  observed :: "string option option"

definition initial_card_state :: BreakpointCardState where
  "initial_card_state = \<lparr> card_contentType = ''text'', observed = None \<rparr>"

definition breakpoint_onChangeContentType ::
  "string \<Rightarrow> BreakpointCardState \<Rightarrow> BreakpointCardState" where
  "breakpoint_onChangeContentType v st = st\<lparr> card_contentType := v \<rparr>"

text \<open>\<^verbatim>\<open>value || 'text'\<close>: an absent or empty tag becomes \<^verbatim>\<open>'text'\<close>.\<close>

definition or_text :: "string option \<Rightarrow> string" where
  "or_text v = (case v of None \<Rightarrow> ''text'' | Some s \<Rightarrow> if s = [] then ''text'' else s)"

text \<open>
  The effect of the reaction. \<^verbatim>\<open>getEditableContentType\<close> lives outside the embedded
  files and is a parameter, as is \<^verbatim>\<open>getHeaderValue\<close> over the raw headers (\<open>headerValue\<close>
  below).
\<close>

definition reaction_effect ::
  "(string option \<Rightarrow> EditableContentType option) \<Rightarrow> string option \<Rightarrow>
     BreakpointCardState \<Rightarrow> BreakpointCardState" where
  "reaction_effect getEditableContentType contentTypeHeader st =
     st\<lparr> card_contentType := or_text (getEditableContentType contentTypeHeader) \<rparr>"

text \<open>
  \<^verbatim>\<open>componentDidMount\<close> starts a MobX \<^verbatim>\<open>reaction\<close> with \<^verbatim>\<open>fireImmediately\<close>: the data
  function \<^verbatim>\<open>getHeaderValue(this.props.rawHeaders, 'content-type')\<close> is evaluated and the
  effect runs on its value at once.
\<close>

definition breakpoint_componentDidMount ::
  "(string option \<Rightarrow> EditableContentType option) \<Rightarrow> ('r \<Rightarrow> string \<Rightarrow> string option) \<Rightarrow>
     'r \<Rightarrow> BreakpointCardState \<Rightarrow> BreakpointCardState" where
  "breakpoint_componentDidMount getEditableContentType headerValue raw st =
     (let v = headerValue raw ''content-type''
      in (reaction_effect getEditableContentType v st)\<lparr> observed := Some v \<rparr>)"

text \<open>
  A new \<^verbatim>\<open>rawHeaders\<close> prop while the reaction runs: the data function is evaluated
  again, in the same step, and the effect runs when its value differs from the last one.
\<close>

definition rawHeadersChanged ::
  "(string option \<Rightarrow> EditableContentType option) \<Rightarrow> ('r \<Rightarrow> string \<Rightarrow> string option) \<Rightarrow>
     'r \<Rightarrow> BreakpointCardState \<Rightarrow> BreakpointCardState" where
  "rawHeadersChanged getEditableContentType headerValue raw st =
     (case observed st of
        None \<Rightarrow> st
      | Some old \<Rightarrow>
          (let v = headerValue raw ''content-type''
           in if v = old then st
              else (reaction_effect getEditableContentType v st)\<lparr> observed := Some v \<rparr>))"

text \<open>\<^verbatim>\<open>disposeOnUnmount\<close>: the reaction stops with the component.\<close>

definition breakpoint_componentWillUnmount :: "BreakpointCardState \<Rightarrow> BreakpointCardState" where
  "breakpoint_componentWillUnmount st = st\<lparr> observed := None \<rparr>"

text \<open>
  The format button. \<^verbatim>\<open>EditableBodyCardHeader\<close> hands it the selected content type,
  the body and the \<^verbatim>\<open>onBodyFormatted\<close> callback; the card's \<^verbatim>\<open>render\<close> passes
  \<^verbatim>\<open>this.onBodyChange\<close> as that callback, the same function the editor's \<^verbatim>\<open>onChange\<close>
  gets. A callback is modelled by the buffer it passes on to \<^verbatim>\<open>props.onChange\<close>.
\<close>

record EditableBodyCardHeaderProps =
  editable_body :: "byte list"
  onBodyFormatted :: "js_string \<Rightarrow> byte list"
  editable_selectedContentType :: EditableContentType

record FormatButtonProps =
  format :: EditableContentType
  content :: "byte list"
  onFormatted :: "js_string \<Rightarrow> byte list"

record EditorProps =
  language :: EditableContentType
  editor_value :: js_string
  editor_onChange :: "js_string \<Rightarrow> byte list"

definition breakpoint_header_props ::
  "byte list \<Rightarrow> BreakpointCardState \<Rightarrow> EditableBodyCardHeaderProps" where
  "breakpoint_header_props buffer st =
     \<lparr> editable_body = buffer,
       onBodyFormatted = onBodyChange buffer,
       editable_selectedContentType = card_contentType st \<rparr>"

definition breakpoint_editor_props :: "byte list \<Rightarrow> BreakpointCardState \<Rightarrow> EditorProps" where
  "breakpoint_editor_props buffer st =
     \<lparr> language = card_contentType st,
       editor_value = bodyString buffer,
       editor_onChange = onBodyChange buffer \<rparr>"

definition EditableBodyCardHeader :: "EditableBodyCardHeaderProps \<Rightarrow> FormatButtonProps" where
  "EditableBodyCardHeader props =
     \<lparr> format = editable_selectedContentType props,
       content = editable_body props,
       onFormatted = onBodyFormatted props \<rparr>"

text \<open>
  Modelled from the spec: the \<^verbatim>\<open>FormatButton\<close> component and the external formatter
  behind it, which are not among the embedded files. A click runs the formatter keyed by
  the content type on the body; a formatter that fails gives a \<^verbatim>\<open>FormatError\<close>, which is
  surfaced and nothing is passed on; a formatter that succeeds gives a text, which goes
  to \<^verbatim>\<open>onFormatted\<close>. The formatter is a parameter.
\<close>

datatype FormatError = FormatError string

definition FormatButton_click ::
  "(EditableContentType \<Rightarrow> byte list \<Rightarrow> FormatError + js_string) \<Rightarrow> FormatButtonProps \<Rightarrow>
     FormatError + byte list" where
  "FormatButton_click formatter props =
     (case formatter (format props) (content props) of
        Inl e \<Rightarrow> Inl e
      | Inr text \<Rightarrow> Inr (onFormatted props text))"

text \<open>
  \<^verbatim>\<open>onFormatRequested\<close>: a click on the format button of the card as rendered for a body
  and a state. The owner of the body replaces it by a buffer passed to
  \<^verbatim>\<open>props.onChange\<close>, and keeps it when nothing is passed.
\<close>

definition onFormatRequested ::
  "(EditableContentType \<Rightarrow> byte list \<Rightarrow> FormatError + js_string) \<Rightarrow> byte list \<Rightarrow>
     BreakpointCardState \<Rightarrow> FormatError + byte list" where
  "onFormatRequested formatter buffer st =
     FormatButton_click formatter (EditableBodyCardHeader (breakpoint_header_props buffer st))"

definition body_after :: "byte list \<Rightarrow> FormatError + byte list \<Rightarrow> byte list" where
  "body_after buffer outcome = (case outcome of Inl e \<Rightarrow> buffer | Inr new \<Rightarrow> new)"

subsection \<open>Notions used in the proofs\<close>

text \<open>A Unicode scalar value: a code point that is not a surrogate.\<close>

definition scalar :: "nat \<Rightarrow> bool" where
  "scalar cp \<longleftrightarrow> cp < 0x110000 \<and> \<not> (0xD800 \<le> cp \<and> cp \<le> 0xDFFF)"

subsection \<open>Concrete inputs\<close>

text \<open>
  Inputs at which the theorems below are instantiated: collaborators that offer the
  structural type, then text and raw; a response whose decoding failed on an unknown
  content encoding, and the same with the structural type raw; a decoded response; props
  without a message; a table of editable types and a formatter that rejects every input.
\<close>

definition example_collaborators :: "string collaborators" where
  "example_collaborators =
     \<lparr> getCompatibleTypes = (\<lambda>t raw b. [t, ''text'', ''raw'']),
       lastHeader = (\<lambda>v. v),
       getHeaderValue = (\<lambda>h k. h k) \<rparr>"

definition failed_message :: "(string, unit) ExchangeMessage" where
  "failed_message =
     \<lparr> message_id = ''7'',
       contentType = ''json'',
       headers = (\<lambda>k. if k = ''content-encoding'' then Some ''brotli''
                      else if k = ''content-type'' then Some ''application/json''
                      else None),
       rawHeaders = (),
       body = \<lparr> encoded = Buffer [0x1B, 0x2A],
                decoded = None,
                decodingError =
                  Some \<lparr> error_code = Some ''UNKNOWN_ENCODING'',
                         error_message = Some ''Unsupported encoding: brotli'' \<rparr> \<rparr> \<rparr>"

definition failed_props :: "(string, unit) SentResponseBodyProps" where
  "failed_props =
     \<lparr> url = ''https://example.test/data'', props_message = Some failed_message,
       isPaidUser = True \<rparr>"

definition text_message :: "(string, unit) ExchangeMessage" where
  "text_message =
     \<lparr> message_id = ''8'',
       contentType = ''text'',
       headers = (\<lambda>k. None),
       rawHeaders = (),
       body = \<lparr> encoded = Buffer [0x68, 0x69], decoded = Some [0x68, 0x69],
                decodingError = None \<rparr> \<rparr>"

definition text_props :: "(string, unit) SentResponseBodyProps" where
  "text_props =
     \<lparr> url = ''https://example.test/hi.txt'', props_message = Some text_message,
       isPaidUser = False \<rparr>"

definition raw_failed_message :: "(string, unit) ExchangeMessage" where
  "raw_failed_message = failed_message\<lparr> message_id := ''9'', contentType := ''raw'' \<rparr>"

definition raw_failed_props :: "(string, unit) SentResponseBodyProps" where
  "raw_failed_props =
     \<lparr> url = ''https://example.test/blob'', props_message = Some raw_failed_message,
       isPaidUser = True \<rparr>"

definition absent_props :: "(string, unit) SentResponseBodyProps" where
  "absent_props =
     \<lparr> url = ''https://example.test/none'', props_message = None, isPaidUser = False \<rparr>"

definition example_getEditableContentType :: "string option \<Rightarrow> EditableContentType option" where
  "example_getEditableContentType h =
     (if h = Some ''application/json'' then Some ''json''
      else if h = Some ''text/plain'' then Some ''text''
      else None)"

definition rejecting_formatter ::
  "EditableContentType \<Rightarrow> byte list \<Rightarrow> FormatError + js_string" where
  "rejecting_formatter t bs = Inl (FormatError ''malformed'')"

section \<open>Download file name: proofs\<close>

lemma split_on_nonempty: "split_on sep s \<noteq> []"
  by (induction s) (auto split: list.splits)

lemma takeWhile_other: "x \<notin> set xs \<Longrightarrow> takeWhile (\<lambda>c. c \<noteq> x) xs = xs"
  by (induction xs) auto

lemma dropWhile_other: "x \<notin> set xs \<Longrightarrow> dropWhile (\<lambda>c. c \<noteq> x) (xs @ x # ys) = x # ys"
  by (induction xs) auto

lemma split_on_no_sep: "sep \<notin> set s \<Longrightarrow> split_on sep s = [s]"
  by (induction s) auto

lemma split_on_append: "split_on sep (a @ sep # b) = split_on sep a @ split_on sep b"
proof (induction a)
  case Nil
  show ?case by simp
next
  case (Cons c a)
  obtain seg segs where sp: "split_on sep a = seg # segs"
    using split_on_nonempty [of sep a] by (cases "split_on sep a") auto
  with Cons show ?case by simp
qed

lemma after_last_no_sep: "sep \<notin> set s \<Longrightarrow> after_last sep s = s"
  by (simp add: after_last_def takeWhile_other)

lemma after_last_append: "sep \<notin> set b \<Longrightarrow> after_last sep (a @ sep # b) = b"
  by (simp add: after_last_def takeWhile_tail takeWhile_other)

lemma last_split_on: "last (split_on sep s) = after_last sep s"
proof (cases "sep \<in> set s")
  case False
  then show ?thesis by (simp add: split_on_no_sep after_last_no_sep)
next
  case True
  then obtain a b where s: "s = a @ sep # b" and b: "sep \<notin> set b"
    by (auto dest: split_list_last)
  have "last (split_on sep s) = last (split_on sep b)"
    unfolding s by (simp add: split_on_append split_on_nonempty)
  with b show ?thesis by (simp add: s split_on_no_sep after_last_append)
qed

lemma lodash_last_split_on: "lodash_last (split_on sep s) = Some (after_last sep s)"
  by (simp add: lodash_last_def split_on_nonempty last_split_on)

lemma filename_match_here_iff:
  "filename_match_here s = Some g \<longleftrightarrow> directive_at s [] g"
proof
  assume m: "filename_match_here s = Some g"
  let ?n = "length filename_literal"
  let ?r = "drop ?n s"
  from m have lit: "take ?n s = filename_literal"
    and g: "g = takeWhile (\<lambda>c. c \<noteq> dquote) ?r" and ne: "g \<noteq> []"
    and dw: "dropWhile (\<lambda>c. c \<noteq> dquote) ?r \<noteq> []"
    by (auto simp: filename_match_here_def Let_def split: if_splits)
  from dw obtain post where post: "dropWhile (\<lambda>c. c \<noteq> dquote) ?r = dquote # post"
    using hd_dropWhile [OF dw] by (cases "dropWhile (\<lambda>c. c \<noteq> dquote) ?r") auto
  have "s = take ?n s @ ?r" by simp
  also have "?r = g @ dquote # post"
    using takeWhile_dropWhile_id [of "\<lambda>c. c \<noteq> dquote" ?r] by (simp add: g post)
  finally have "s = filename_literal @ g @ dquote # post" by (simp add: lit)
  moreover have "dquote \<notin> set g"
    unfolding g by (auto dest: set_takeWhileD)
  ultimately show "directive_at s [] g"
    using ne by (auto simp: directive_at_def)
next
  assume "directive_at s [] g"
  then obtain post where s: "s = filename_literal @ g @ dquote # post"
    and ne: "g \<noteq> []" and nq: "dquote \<notin> set g"
    by (auto simp: directive_at_def)
  from nq have "takeWhile (\<lambda>c. c \<noteq> dquote) (g @ dquote # post) = g"
    by (simp add: takeWhile_tail takeWhile_other)
  moreover from nq have "dropWhile (\<lambda>c. c \<noteq> dquote) (g @ dquote # post) = dquote # post"
    by (rule dropWhile_other)
  ultimately show "filename_match_here s = Some g"
    using ne by (simp add: filename_match_here_def s)
qed

lemma directive_at_Cons: "directive_at (c # s) (c' # pre) g \<longleftrightarrow> c' = c \<and> directive_at s pre g"
  by (auto simp: directive_at_def)

lemma directive_at_unique: "directive_at s pre g \<Longrightarrow> directive_at s pre g' \<Longrightarrow> g = g'"
proof -
  assume a: "directive_at s pre g" and b: "directive_at s pre g'"
  from a obtain post where 1: "s = pre @ filename_literal @ g @ dquote # post" and "dquote \<notin> set g"
    by (auto simp: directive_at_def)
  from b obtain post' where 2: "s = pre @ filename_literal @ g' @ dquote # post'" and "dquote \<notin> set g'"
    by (auto simp: directive_at_def)
  from 1 2 have "g @ dquote # post = g' @ dquote # post'" by simp
  then have "takeWhile (\<lambda>c. c \<noteq> dquote) (g @ dquote # post) = takeWhile (\<lambda>c. c \<noteq> dquote) (g' @ dquote # post')"
    by simp
  with \<open>dquote \<notin> set g\<close> \<open>dquote \<notin> set g'\<close> show ?thesis
    by (simp add: takeWhile_tail takeWhile_other)
qed

lemma filename_regex_exec_None: "filename_regex_exec s = None \<longleftrightarrow> no_directive s"
proof (induction s)
  case Nil
  have "\<And>pre g. \<not> directive_at [] pre g" by (auto simp: directive_at_def filename_literal_def)
  moreover have "filename_match_here [] = None"
    by (simp add: filename_match_here_def filename_literal_def)
  ultimately show ?case by (simp add: no_directive_def)
next
  case (Cons c cs)
  show ?case
  proof (cases "filename_match_here (c # cs)")
    case (Some g)
    then have "directive_at (c # cs) [] g" by (simp add: filename_match_here_iff)
    with Some show ?thesis by (auto simp: no_directive_def)
  next
    case None
    then have here: "\<And>g. \<not> directive_at (c # cs) [] g"
      by (simp add: filename_match_here_iff [symmetric])
    have "no_directive (c # cs) \<longleftrightarrow> no_directive cs"
    proof
      assume n: "no_directive (c # cs)"
      show "no_directive cs"
        unfolding no_directive_def
      proof (intro allI notI)
        fix pre g assume "directive_at cs pre g"
        then have "directive_at (c # cs) (c # pre) g" by (simp add: directive_at_Cons)
        with n show False by (simp add: no_directive_def)
      qed
    next
      assume n: "no_directive cs"
      show "no_directive (c # cs)"
        unfolding no_directive_def
      proof (intro allI notI)
        fix pre g assume d: "directive_at (c # cs) pre g"
        show False
        proof (cases pre)
          case Nil
          with d here show False by simp
        next
          case (Cons c' pre')
          with d have "directive_at cs pre' g" by (simp add: directive_at_Cons)
          with n show False by (simp add: no_directive_def)
        qed
      qed
    qed
    with None Cons show ?thesis by simp
  qed
qed

lemma filename_regex_exec_Some: "filename_regex_exec s = Some g \<longleftrightarrow> first_directive s g"
proof (induction s)
  case Nil
  have "\<And>pre g. \<not> directive_at [] pre g" by (auto simp: directive_at_def filename_literal_def)
  moreover have "filename_match_here [] = None"
    by (simp add: filename_match_here_def filename_literal_def)
  ultimately show ?case by (simp add: first_directive_def)
next
  case (Cons c cs)
  show ?case
  proof (cases "filename_match_here (c # cs)")
    case (Some g0)
    then have d0: "directive_at (c # cs) [] g0" by (simp add: filename_match_here_iff)
    have "first_directive (c # cs) g \<longleftrightarrow> g = g0"
    proof
      assume "first_directive (c # cs) g"
      then obtain pre where d: "directive_at (c # cs) pre g"
        and least: "\<forall>pre' g'. directive_at (c # cs) pre' g' \<longrightarrow> length pre \<le> length pre'"
        by (auto simp: first_directive_def)
      from least d0 have "pre = []" by fastforce
      with d d0 show "g = g0" by (auto dest: directive_at_unique)
    next
      assume "g = g0"
      with d0 show "first_directive (c # cs) g"
        unfolding first_directive_def by (intro exI [of _ "[]"]) simp
    qed
    with Some show ?thesis by auto
  next
    case None
    then have here: "\<And>g. \<not> directive_at (c # cs) [] g"
      by (simp add: filename_match_here_iff [symmetric])
    have "first_directive (c # cs) g \<longleftrightarrow> first_directive cs g"
    proof
      assume "first_directive (c # cs) g"
      then obtain pre where d: "directive_at (c # cs) pre g"
        and least: "\<forall>pre' g'. directive_at (c # cs) pre' g' \<longrightarrow> length pre \<le> length pre'"
        by (auto simp: first_directive_def)
      from d here obtain pre0 where pre: "pre = c # pre0" and d': "directive_at cs pre0 g"
        by (cases pre) (auto simp: directive_at_Cons)
      have "\<forall>pre' g'. directive_at cs pre' g' \<longrightarrow> length pre0 \<le> length pre'"
      proof (intro allI impI)
        fix pre' g' assume "directive_at cs pre' g'"
        then have "directive_at (c # cs) (c # pre') g'" by (simp add: directive_at_Cons)
        with least have "length pre \<le> length (c # pre')" by blast
        then show "length pre0 \<le> length pre'" by (simp add: pre)
      qed
      with d' show "first_directive cs g" by (auto simp: first_directive_def)
    next
      assume "first_directive cs g"
      then obtain pre where d: "directive_at cs pre g"
        and least: "\<forall>pre' g'. directive_at cs pre' g' \<longrightarrow> length pre \<le> length pre'"
        by (auto simp: first_directive_def)
      have "directive_at (c # cs) (c # pre) g" using d by (simp add: directive_at_Cons)
      moreover have "\<forall>pre' g'. directive_at (c # cs) pre' g' \<longrightarrow> length (c # pre) \<le> length pre'"
      proof (intro allI impI)
        fix pre' g' assume d': "directive_at (c # cs) pre' g'"
        with here obtain p where p: "pre' = c # p" and "directive_at cs p g'"
          by (cases pre') (auto simp: directive_at_Cons)
        with least have "length pre \<le> length p" by blast
        then show "length (c # pre) \<le> length pre'" by (simp add: p)
      qed
      ultimately show "first_directive (c # cs) g"
        unfolding first_directive_def by blast
    qed
    with None Cons show ?thesis by simp
  qed
qed

subsection \<open>The result of \<^verbatim>\<open>getBodyDownloadFilename\<close>\<close>

lemma getBodyDownloadFilename_eq:
  "getBodyDownloadFilename ghv u h =
     (case filename_regex_exec (or_empty (ghv h ''content-disposition'')) of
        Some g \<Rightarrow> Inr (Some (after_last backslash (after_last slash g)))
      | None \<Rightarrow>
          if dot \<in> set (after_last slash u) then Inr (Some (after_last slash u)) else Inr None)"
  by (simp add: getBodyDownloadFilename_def Let_def lodash_last_split_on
        split: option.splits)

lemma getBodyDownloadFilename_returns: "\<exists>f. getBodyDownloadFilename ghv u h = Inr f"
  by (simp add: getBodyDownloadFilename_eq split: option.splits)

text \<open>
  Claim C10. \<^verbatim>\<open>getBodyDownloadFilename\<close> never fails. When the content-disposition header
  holds a quoted file name directive, the result is the first such file name with its
  path stripped: the part after the last slash, and of that the part after the last
  backslash. When it holds none, the result is the part of the URL after its last slash
  if that part contains a dot, and no file name otherwise.
\<close>

theorem getBodyDownloadFilename_spec:
  "(\<exists>f. getBodyDownloadFilename ghv u h = Inr f)
   \<and> (first_directive (or_empty (ghv h ''content-disposition'')) g \<longrightarrow>
      getBodyDownloadFilename ghv u h = Inr (Some (after_last backslash (after_last slash g))))
   \<and> (no_directive (or_empty (ghv h ''content-disposition'')) \<longrightarrow>
      getBodyDownloadFilename ghv u h =
        (if dot \<in> set (after_last slash u) then Inr (Some (after_last slash u)) else Inr None))"
  using getBodyDownloadFilename_returns [of ghv u h]
  by (simp add: getBodyDownloadFilename_eq filename_regex_exec_Some [symmetric]
        filename_regex_exec_None [symmetric])

text \<open>Two inputs: a header with a directive that holds a path, and no header at all.\<close>

lemma directive_example_match:
  "filename_regex_exec
     (''attachment; filename='' @ [dquote] @ ''dir/sub'' @ [backslash] @ ''report.pdf''
        @ [dquote])
   = Some (''dir/sub'' @ [backslash] @ ''report.pdf'')"
  by code_simp

lemma directive_example_strip:
  "after_last backslash (after_last slash (''dir/sub'' @ [backslash] @ ''report.pdf''))
   = ''report.pdf''"
  by code_simp

lemma directive_example_none: "filename_regex_exec [] = None"
  by code_simp

lemma directive_example_url:
  "after_last slash ''https://example.test/files/a.txt'' = ''a.txt''"
  by code_simp

theorem getBodyDownloadFilename_spec_witness:
  "first_directive
     (or_empty ((\<lambda>h k. h k)
        (\<lambda>k. if k = ''content-disposition''
              then Some (''attachment; filename='' @ [dquote] @ ''dir/sub'' @ [backslash]
                           @ ''report.pdf'' @ [dquote])
              else None) ''content-disposition''))
     (''dir/sub'' @ [backslash] @ ''report.pdf'')
   \<and> getBodyDownloadFilename (\<lambda>h k. h k) ''https://example.test/a/b''
        (\<lambda>k. if k = ''content-disposition''
              then Some (''attachment; filename='' @ [dquote] @ ''dir/sub'' @ [backslash]
                           @ ''report.pdf'' @ [dquote])
              else None) = Inr (Some ''report.pdf'')
   \<and> no_directive (or_empty ((\<lambda>h k. h k) (\<lambda>k. None :: string option) ''content-disposition''))
   \<and> getBodyDownloadFilename (\<lambda>h k. h k) ''https://example.test/files/a.txt''
        (\<lambda>k. None :: string option) = Inr (Some ''a.txt'')"
proof -
  let ?hs = "\<lambda>k. if k = ''content-disposition''
              then Some (''attachment; filename='' @ [dquote] @ ''dir/sub'' @ [backslash]
                           @ ''report.pdf'' @ [dquote])
              else None"
  let ?g = "''dir/sub'' @ [backslash] @ ''report.pdf''"
  let ?get = "\<lambda>(h :: string \<Rightarrow> string option) k. h k"
  have d: "first_directive (or_empty (?get ?hs ''content-disposition'')) ?g"
    using directive_example_match by (simp add: or_empty_def filename_regex_exec_Some [symmetric])
  have n: "no_directive (or_empty (?get (\<lambda>k. None) ''content-disposition''))"
    using directive_example_none by (simp add: or_empty_def filename_regex_exec_None [symmetric])
  have dotin: "dot \<in> set ''a.txt''" by (simp add: dot_def)
  from getBodyDownloadFilename_spec
    [where ghv = ?get and h = ?hs and g = ?g and u = "''https://example.test/a/b''"] d
  have 1: "getBodyDownloadFilename ?get ''https://example.test/a/b'' ?hs
      = Inr (Some ''report.pdf'')"
    by (simp only: directive_example_strip)
  from getBodyDownloadFilename_spec
    [where ghv = ?get and h = "\<lambda>k. None" and g = ?g
      and u = "''https://example.test/files/a.txt''"] n
  have 2: "getBodyDownloadFilename ?get ''https://example.test/files/a.txt'' (\<lambda>k. None)
      = Inr (Some ''a.txt'')"
    using dotin by (simp only: directive_example_url if_True)
  from d 1 n 2 show ?thesis by (intro conjI)
qed

section \<open>The response body card: proofs\<close>

lemma included_or_member:
  "fallback \<in> set options \<Longrightarrow> included_or options selected fallback \<in> set options"
  by (auto simp: included_or_def lodash_includes_def split: option.splits)

lemma included_or_encoded:
  "included_or ENCODED_DATA_CONTENT_TYPES selected ''text'' \<in> set ENCODED_DATA_CONTENT_TYPES"
  by (rule included_or_member) (simp add: ENCODED_DATA_CONTENT_TYPES_def)

lemma included_or_kept: "c \<in> set options \<Longrightarrow> included_or options (Some c) fallback = c"
  by (simp add: included_or_def lodash_includes_def)

lemma included_or_discarded:
  "selected = None \<or> (\<exists>c. selected = Some c \<and> c \<notin> set options) \<Longrightarrow>
     included_or options selected fallback = fallback"
  by (auto simp: included_or_def lodash_includes_def)

lemma render_absent: "props_message props = None \<Longrightarrow> render E props selected = Inl TypeError"
  by (simp add: render_def)

lemma render_decoded:
  assumes "props_message props = Some m" and "decoded (body m) = Some buf"
  shows "\<exists>h v. render E props selected = Inr (DecodedCard h v)
           \<and> contentTypeOptions h =
               getCompatibleTypes E (contentType m)
                 (lastHeader E (headers m ''content-type'')) (body m)
           \<and> selectedContentType h =
               included_or (contentTypeOptions h) selected (contentType m)"
proof -
  obtain f where "getBodyDownloadFilename (getHeaderValue E) (url props) (headers m) = Inr f"
    using getBodyDownloadFilename_returns [of "getHeaderValue E" "url props" "headers m"]
    by auto
  with assms show ?thesis by (simp add: render_def Let_def)
qed

lemma render_failed:
  assumes "props_message props = Some m" and "decoded (body m) = None"
    and "decodingError (body m) = Some err"
  shows "\<exists>h b v. render E props selected = Inr (FailedCard h b v)
           \<and> contentTypeOptions h = ENCODED_DATA_CONTENT_TYPES
           \<and> selectedContentType h = included_or ENCODED_DATA_CONTENT_TYPES selected ''text''
           \<and> banner_error b = err
           \<and> (\<forall>p. v = Some p \<longrightarrow> viewer_contentType p = selectedContentType h)"
proof -
  obtain f where "getBodyDownloadFilename (getHeaderValue E) (url props) (headers m) = Inr f"
    using getBodyDownloadFilename_returns [of "getHeaderValue E" "url props" "headers m"]
    by auto
  with assms show ?thesis by (auto simp: render_def Let_def split: option.splits)
qed

lemma render_loading:
  assumes "props_message props = Some m" and "decoded (body m) = None"
    and "decodingError (body m) = None"
  shows "\<exists>h. render E props selected = Inr (LoadingCard h)
           \<and> contentTypeOptions h =
               getCompatibleTypes E (contentType m)
                 (lastHeader E (headers m ''content-type'')) (body m)
           \<and> selectedContentType h =
               included_or (contentTypeOptions h) selected (contentType m)"
  using assms by (simp add: render_def Let_def)

lemma render_state_eq:
  assumes pm: "props_message props = Some m"
  shows "render_state E props selected = Inr (payload_state (body m))"
proof (cases "decoded (body m)")
  case (Some buf)
  from render_decoded [OF pm Some, of E selected] Some show ?thesis
    by (auto simp: render_state_def payload_state_def)
next
  case None
  show ?thesis
  proof (cases "decodingError (body m)")
    case (Some err)
    from render_failed [OF pm None Some, of E selected] None Some show ?thesis
      by (auto simp: render_state_def payload_state_def)
  next
    case nerr: None
    from render_loading [OF pm None nerr, of E selected] None nerr show ?thesis
      by (auto simp: render_state_def payload_state_def)
  qed
qed

text \<open>
  Claim C4, as stated, at a concrete input: with no message, \<^verbatim>\<open>render\<close> fails on its first
  use of the message; no card is rendered, the loading one included.
\<close>

theorem absent_message_counterexample:
  "props_message absent_props = None
   \<and> render example_collaborators absent_props None = Inl TypeError
   \<and> render_state example_collaborators absent_props None = Inl TypeError
   \<and> render_state example_collaborators absent_props None \<noteq> Inr Pending"
  by (simp add: absent_props_def render_def render_state_def)

text \<open>
  Claim C4, amended. For every message that is present, the decoding state of the
  rendered card is a projection of the message body alone: rendering does not fail, the
  card is the decoded one exactly when decoded bytes are present, the failed one exactly
  when they are absent and a decoding error is present, and the loading one exactly when
  both are absent.
\<close>

theorem render_state_projection:
  assumes "props_message props = Some m"
  shows "render_state E props selected = Inr (payload_state (body m))
   \<and> (render_state E props selected = Inr Decoded \<longleftrightarrow> decoded (body m) \<noteq> None)
   \<and> (render_state E props selected = Inr Failed
        \<longleftrightarrow> decoded (body m) = None \<and> decodingError (body m) \<noteq> None)
   \<and> (render_state E props selected = Inr Pending
        \<longleftrightarrow> decoded (body m) = None \<and> decodingError (body m) = None)"
  by (simp add: render_state_eq [OF assms] payload_state_def)

theorem render_state_projection_witness:
  "props_message failed_props = Some failed_message
   \<and> render_state example_collaborators failed_props None = Inr Failed
   \<and> props_message text_props = Some text_message
   \<and> render_state example_collaborators text_props None = Inr Decoded"
proof -
  have f: "props_message failed_props = Some failed_message"
    by (simp add: failed_props_def)
  have t: "props_message text_props = Some text_message"
    by (simp add: text_props_def)
  have 1: "render_state example_collaborators failed_props None = Inr Failed"
    using render_state_projection [OF f, of example_collaborators None]
    by (simp add: failed_message_def payload_state_def)
  have 2: "render_state example_collaborators text_props None = Inr Decoded"
    using render_state_projection [OF t, of example_collaborators None]
    by (simp add: text_message_def payload_state_def)
  from f 1 t 2 show ?thesis by (intro conjI)
qed

text \<open>
  Claim C3. When decoding failed (a message with no decoded bytes and a decoding error),
  the card that is rendered is the failed one and the content types it offers are
  exactly text, raw, base64 and image, in this order, whatever the declared content
  type, the headers, the collaborators and the selection are.
\<close>

theorem failed_offers_encoded_types:
  assumes "props_message props = Some m"
    and "decoded (body m) = None"
    and "decodingError (body m) = Some err"
  shows "\<exists>h b v. render E props selected = Inr (FailedCard h b v)
           \<and> contentTypeOptions h = [''text'', ''raw'', ''base64'', ''image'']
           \<and> contentTypeOptions h = ENCODED_DATA_CONTENT_TYPES"
  using render_failed [OF assms, of E selected]
  by (auto simp: ENCODED_DATA_CONTENT_TYPES_def)

theorem failed_offers_encoded_types_witness:
  "props_message failed_props = Some failed_message
   \<and> decoded (body failed_message) = None
   \<and> decodingError (body failed_message)
       = Some \<lparr> error_code = Some ''UNKNOWN_ENCODING'',
                error_message = Some ''Unsupported encoding: brotli'' \<rparr>
   \<and> (\<exists>h b v. render example_collaborators failed_props (Some ''json'') = Inr (FailedCard h b v)
           \<and> contentTypeOptions h = [''text'', ''raw'', ''base64'', ''image'']
           \<and> contentTypeOptions h = ENCODED_DATA_CONTENT_TYPES)"
proof -
  have p: "props_message failed_props = Some failed_message"
    by (simp add: failed_props_def)
  have d: "decoded (body failed_message) = None"
    by (simp add: failed_message_def)
  have e: "decodingError (body failed_message)
       = Some \<lparr> error_code = Some ''UNKNOWN_ENCODING'',
                error_message = Some ''Unsupported encoding: brotli'' \<rparr>"
    by (simp add: failed_message_def)
  from failed_offers_encoded_types [OF p d e, of example_collaborators "Some ''json''"] p d e
  show ?thesis by (intro conjI)
qed

text \<open>
  Claim C2, as stated, at a concrete input: a response whose decoding failed and whose
  structural type is raw, with the override xml pinned. The override is not among the
  offered types and is discarded, but what is shown instead is text, not the structural
  type, although raw is offered. The same with the structural type json.
\<close>

theorem failed_default_counterexample:
  "props_message raw_failed_props = Some raw_failed_message
   \<and> contentType raw_failed_message = ''raw''
   \<and> ''raw'' \<in> set ENCODED_DATA_CONTENT_TYPES
   \<and> ''xml'' \<notin> set ENCODED_DATA_CONTENT_TYPES
   \<and> (\<exists>h b v. render example_collaborators raw_failed_props (Some ''xml'')
                  = Inr (FailedCard h b v)
          \<and> contentTypeOptions h = ENCODED_DATA_CONTENT_TYPES
          \<and> selectedContentType h = ''text''
          \<and> selectedContentType h \<noteq> contentType raw_failed_message)
   \<and> props_message failed_props = Some failed_message
   \<and> contentType failed_message = ''json''
   \<and> (\<exists>h b v. render example_collaborators failed_props (Some ''xml'')
                  = Inr (FailedCard h b v)
          \<and> selectedContentType h = ''text''
          \<and> selectedContentType h \<noteq> contentType failed_message)"
proof -
  have p: "props_message raw_failed_props = Some raw_failed_message"
    by (simp add: raw_failed_props_def)
  have c: "contentType raw_failed_message = ''raw''"
    by (simp add: raw_failed_message_def)
  have i: "''raw'' \<in> set ENCODED_DATA_CONTENT_TYPES"
    by (simp add: ENCODED_DATA_CONTENT_TYPES_def)
  have x: "''xml'' \<notin> set ENCODED_DATA_CONTENT_TYPES"
    by (simp add: ENCODED_DATA_CONTENT_TYPES_def)
  have d: "included_or ENCODED_DATA_CONTENT_TYPES (Some ''xml'') ''text'' = ''text''"
    using x by (intro included_or_discarded) simp
  have r: "\<exists>h b v. render example_collaborators raw_failed_props (Some ''xml'')
                  = Inr (FailedCard h b v)
          \<and> contentTypeOptions h = ENCODED_DATA_CONTENT_TYPES
          \<and> selectedContentType h = ''text''
          \<and> selectedContentType h \<noteq> contentType raw_failed_message"
    using render_failed [OF p, of _ example_collaborators "Some ''xml''"] d
    by (auto simp: raw_failed_message_def failed_message_def)
  have p': "props_message failed_props = Some failed_message"
    by (simp add: failed_props_def)
  have c': "contentType failed_message = ''json''"
    by (simp add: failed_message_def)
  have r': "\<exists>h b v. render example_collaborators failed_props (Some ''xml'')
                  = Inr (FailedCard h b v)
          \<and> selectedContentType h = ''text''
          \<and> selectedContentType h \<noteq> contentType failed_message"
    using render_failed [OF p', of _ example_collaborators "Some ''xml''"] d
    by (auto simp: failed_message_def)
  from p c i x r p' c' r' show ?thesis by (intro conjI)
qed

text \<open>
  Claim C2, amended. For every message that is present and every override, the card is
  rendered. The failed card offers the encoded-data types and the type it shows is one
  of them; the decoded and the loading card offer the types computed for the message,
  and the type they show is one of them whenever these contain the structural content
  type. An override that is among the offered types is shown. An override that is not
  among them, or no override, is discarded for the default of the card: the structural
  content type on the decoded and the loading card, text on the failed card.
\<close>

theorem effective_type_offerable:
  assumes "props_message props = Some m"
  shows "\<exists>rendered. render E props selected = Inr rendered
     \<and> contentTypeOptions (card_header rendered) =
         (if card_state rendered = Failed then ENCODED_DATA_CONTENT_TYPES
          else getCompatibleTypes E (contentType m)
                 (lastHeader E (headers m ''content-type'')) (body m))
     \<and> (card_state rendered = Failed \<longrightarrow>
          selectedContentType (card_header rendered)
            \<in> set (contentTypeOptions (card_header rendered)))
     \<and> (contentType m \<in> set (getCompatibleTypes E (contentType m)
                                (lastHeader E (headers m ''content-type'')) (body m)) \<longrightarrow>
          selectedContentType (card_header rendered)
            \<in> set (contentTypeOptions (card_header rendered)))
     \<and> (\<forall>c. selected = Some c \<and> c \<in> set (contentTypeOptions (card_header rendered)) \<longrightarrow>
          selectedContentType (card_header rendered) = c)
     \<and> (selected = None
          \<or> (\<exists>c. selected = Some c \<and> c \<notin> set (contentTypeOptions (card_header rendered))) \<longrightarrow>
          selectedContentType (card_header rendered) =
            (if card_state rendered = Failed then ''text'' else contentType m))"
proof (cases "decoded (body m)")
  case (Some buf)
  from render_decoded [OF assms Some, of E selected]
  obtain h v where r: "render E props selected = Inr (DecodedCard h v)"
    and o: "contentTypeOptions h = getCompatibleTypes E (contentType m)
              (lastHeader E (headers m ''content-type'')) (body m)"
    and s: "selectedContentType h = included_or (contentTypeOptions h) selected (contentType m)"
    by blast
  show ?thesis
    unfolding r
    by (rule exI [of _ "DecodedCard h v"])
      (auto simp: o s included_or_member included_or_kept included_or_discarded)
next
  case None
  show ?thesis
  proof (cases "decodingError (body m)")
    case (Some err)
    from render_failed [OF assms None Some, of E selected]
    obtain h b v where r: "render E props selected = Inr (FailedCard h b v)"
      and o: "contentTypeOptions h = ENCODED_DATA_CONTENT_TYPES"
      and s: "selectedContentType h = included_or ENCODED_DATA_CONTENT_TYPES selected ''text''"
      by blast
    show ?thesis
      unfolding r
      by (rule exI [of _ "FailedCard h b v"])
        (auto simp: o s included_or_encoded included_or_kept included_or_discarded)
  next
    case nerr: None
    from render_loading [OF assms None nerr, of E selected]
    obtain h where r: "render E props selected = Inr (LoadingCard h)"
      and o: "contentTypeOptions h = getCompatibleTypes E (contentType m)
                (lastHeader E (headers m ''content-type'')) (body m)"
      and s: "selectedContentType h = included_or (contentTypeOptions h) selected (contentType m)"
      by blast
    show ?thesis
      unfolding r
      by (rule exI [of _ "LoadingCard h"])
        (auto simp: o s included_or_member included_or_kept included_or_discarded)
  qed
qed

theorem effective_type_offerable_witness:
  "props_message text_props = Some text_message
   \<and> (\<exists>rendered. render example_collaborators text_props (Some ''image'') = Inr rendered
          \<and> card_state rendered = Decoded
          \<and> selectedContentType (card_header rendered) = ''text''
          \<and> selectedContentType (card_header rendered)
               \<in> set (contentTypeOptions (card_header rendered)))
   \<and> props_message raw_failed_props = Some raw_failed_message
   \<and> (\<exists>rendered. render example_collaborators raw_failed_props (Some ''base64'') = Inr rendered
          \<and> card_state rendered = Failed
          \<and> selectedContentType (card_header rendered) = ''base64''
          \<and> selectedContentType (card_header rendered)
               \<in> set (contentTypeOptions (card_header rendered)))"
proof -
  let ?E = example_collaborators
  have t: "props_message text_props = Some text_message"
    by (simp add: text_props_def)
  have f: "props_message raw_failed_props = Some raw_failed_message"
    by (simp add: raw_failed_props_def)
  have gct: "getCompatibleTypes ?E (contentType text_message)
      (lastHeader ?E (headers text_message ''content-type'')) (body text_message)
      = [''text'', ''text'', ''raw'']"
    by (simp add: example_collaborators_def text_message_def)
  have ct: "contentType text_message = ''text''"
    by (simp add: text_message_def)
  from effective_type_offerable [OF t, of ?E "Some ''image''"]
  obtain r1 where r1: "render ?E text_props (Some ''image'') = Inr r1"
    and o1: "contentTypeOptions (card_header r1) =
         (if card_state r1 = Failed then ENCODED_DATA_CONTENT_TYPES
          else getCompatibleTypes ?E (contentType text_message)
                 (lastHeader ?E (headers text_message ''content-type'')) (body text_message))"
    and m1: "contentType text_message \<in> set (getCompatibleTypes ?E (contentType text_message)
                 (lastHeader ?E (headers text_message ''content-type'')) (body text_message)) \<longrightarrow>
          selectedContentType (card_header r1) \<in> set (contentTypeOptions (card_header r1))"
    and d1: "Some ''image'' = None
          \<or> (\<exists>c. Some ''image'' = Some c \<and> c \<notin> set (contentTypeOptions (card_header r1))) \<longrightarrow>
          selectedContentType (card_header r1) =
            (if card_state r1 = Failed then ''text'' else contentType text_message)"
    by blast
  have s1: "card_state r1 = Decoded"
    using render_decoded [OF t, of "[0x68, 0x69]" ?E "Some ''image''"] r1
    by (auto simp: text_message_def)
  have opts1: "contentTypeOptions (card_header r1) = [''text'', ''text'', ''raw'']"
    using o1 s1 gct by simp
  have shown1: "selectedContentType (card_header r1) = ''text''"
    using d1 s1 opts1 ct by simp
  have mem1: "selectedContentType (card_header r1) \<in> set (contentTypeOptions (card_header r1))"
    using m1 gct ct by simp
  have first: "\<exists>rendered. render ?E text_props (Some ''image'') = Inr rendered
          \<and> card_state rendered = Decoded
          \<and> selectedContentType (card_header rendered) = ''text''
          \<and> selectedContentType (card_header rendered)
               \<in> set (contentTypeOptions (card_header rendered))"
    using r1 s1 shown1 mem1 by (intro exI [of _ r1] conjI)
  from effective_type_offerable [OF f, of ?E "Some ''base64''"]
  obtain r2 where r2: "render ?E raw_failed_props (Some ''base64'') = Inr r2"
    and o2: "contentTypeOptions (card_header r2) =
         (if card_state r2 = Failed then ENCODED_DATA_CONTENT_TYPES
          else getCompatibleTypes ?E (contentType raw_failed_message)
                 (lastHeader ?E (headers raw_failed_message ''content-type''))
                 (body raw_failed_message))"
    and m2: "card_state r2 = Failed \<longrightarrow>
          selectedContentType (card_header r2) \<in> set (contentTypeOptions (card_header r2))"
    and k2: "\<forall>c. Some ''base64'' = Some c \<and> c \<in> set (contentTypeOptions (card_header r2)) \<longrightarrow>
          selectedContentType (card_header r2) = c"
    by blast
  have s2: "card_state r2 = Failed"
    using render_failed [OF f, of _ ?E "Some ''base64''"] r2
    by (auto simp: raw_failed_message_def failed_message_def)
  have opts2: "contentTypeOptions (card_header r2) = ENCODED_DATA_CONTENT_TYPES"
    using o2 s2 by simp
  have shown2: "selectedContentType (card_header r2) = ''base64''"
    using k2 opts2 by (simp add: ENCODED_DATA_CONTENT_TYPES_def)
  have mem2: "selectedContentType (card_header r2) \<in> set (contentTypeOptions (card_header r2))"
    using m2 s2 by simp
  have second: "\<exists>rendered. render ?E raw_failed_props (Some ''base64'') = Inr rendered
          \<and> card_state rendered = Failed
          \<and> selectedContentType (card_header rendered) = ''base64''
          \<and> selectedContentType (card_header rendered)
               \<in> set (contentTypeOptions (card_header rendered))"
    using r2 s2 shown2 mem2 by (intro exI [of _ r2] conjI)
  from t first f second show ?thesis by (intro conjI)
qed

subsection \<open>The stored override\<close>


text \<open>
  Claim C6, as stated, at a concrete input: the user pins raw on one response, the card
  then gets another response, whose structural type is text; the mount-time reaction
  leaves the override at raw, and the card of the new response shows raw.
\<close>

theorem override_survives_counterexample:
  "onChangeContentType (Some failed_message) (Some ''raw'') = Inr (Some ''raw'')
   \<and> message_id text_message \<noteq> message_id failed_message
   \<and> autorun_message (Some text_message) (Some ''raw'') = Inr (Some ''raw'')
   \<and> autorun_message (Some text_message) (Some ''raw'') \<noteq> Inr None
   \<and> contentType text_message = ''text''
   \<and> (\<exists>h v. render example_collaborators text_props (Some ''raw'') = Inr (DecodedCard h v)
          \<and> selectedContentType h = ''raw'')"
proof -
  have pin: "onChangeContentType (Some failed_message) (Some ''raw'') = Inr (Some ''raw'')"
    by (simp add: onChangeContentType_def failed_message_def)
  have ids: "message_id text_message \<noteq> message_id failed_message"
    by (simp add: failed_message_def text_message_def)
  have kept: "autorun_message (Some text_message) (Some ''raw'') = Inr (Some ''raw'')"
    by (simp add: autorun_message_def)
  then have uncleared: "autorun_message (Some text_message) (Some ''raw'') \<noteq> Inr None"
    by simp
  have structural: "contentType text_message = ''text''"
    by (simp add: text_message_def)
  have present: "props_message text_props = Some text_message"
    by (simp add: text_props_def)
  have shown: "\<exists>h v. render example_collaborators text_props (Some ''raw'') = Inr (DecodedCard h v)
      \<and> selectedContentType h = ''raw''"
    using render_decoded [OF present, of "[0x68, 0x69]" example_collaborators "Some ''raw''"]
    by (auto simp: text_message_def example_collaborators_def included_or_def
        lodash_includes_def)
  from pin ids kept uncleared structural shown show ?thesis by (intro conjI)
qed

text \<open>
  Claim C6, amended. When the card gets another message that is present, the mount-time
  reaction leaves the stored override as it is: it is not cleared.
\<close>

theorem autorun_keeps_override:
  "autorun_message (Some m) selected = Inr selected"
  by (simp add: autorun_message_def)

section \<open>The breakpoint body card: proofs\<close>

subsection \<open>Well-formed UTF-8 sequences and their code points\<close>

lemma utf8_next_cases:
  assumes "utf8_next bs = Some (cp, rest)"
  obtains
    (one) b0 where "bs = b0 # rest" "unat b0 < 0x80" "cp = unat b0"
  | (two) b0 b1 where "bs = b0 # b1 # rest" "0xC2 \<le> unat b0" "unat b0 \<le> 0xDF"
      "is_continuation b1" "cp = (unat b0 - 0xC0) * 0x40 + (unat b1 - 0x80)"
  | (three) b0 b1 b2 where "bs = b0 # b1 # b2 # rest" "0xE0 \<le> unat b0" "unat b0 \<le> 0xEF"
      "second_ok b0 b1" "is_continuation b2"
      "cp = (unat b0 - 0xE0) * 0x1000 + (unat b1 - 0x80) * 0x40 + (unat b2 - 0x80)"
  | (four) b0 b1 b2 b3 where "bs = b0 # b1 # b2 # b3 # rest" "0xF0 \<le> unat b0"
      "unat b0 \<le> 0xF4" "second_ok b0 b1" "is_continuation b2" "is_continuation b3"
      "cp = (unat b0 - 0xF0) * 0x40000 + (unat b1 - 0x80) * 0x1000
            + (unat b2 - 0x80) * 0x40 + (unat b3 - 0x80)"
proof (cases bs)
  case Nil
  with assms show ?thesis by simp
next
  case (Cons b0 r0)
  consider (a) "unat b0 < 0x80"
    | (b) "\<not> unat b0 < 0x80" "0xC2 \<le> unat b0 \<and> unat b0 \<le> 0xDF"
    | (c) "\<not> unat b0 < 0x80" "\<not> (0xC2 \<le> unat b0 \<and> unat b0 \<le> 0xDF)"
          "0xE0 \<le> unat b0 \<and> unat b0 \<le> 0xEF"
    | (d) "\<not> unat b0 < 0x80" "\<not> (0xC2 \<le> unat b0 \<and> unat b0 \<le> 0xDF)"
          "\<not> (0xE0 \<le> unat b0 \<and> unat b0 \<le> 0xEF)" "0xF0 \<le> unat b0 \<and> unat b0 \<le> 0xF4"
    | (e) "\<not> unat b0 < 0x80" "\<not> (0xC2 \<le> unat b0 \<and> unat b0 \<le> 0xDF)"
          "\<not> (0xE0 \<le> unat b0 \<and> unat b0 \<le> 0xEF)" "\<not> (0xF0 \<le> unat b0 \<and> unat b0 \<le> 0xF4)"
    by blast
  then show ?thesis
  proof cases
    case a
    with assms Cons show ?thesis by (intro one [of b0]) simp_all
  next
    case b
    with assms Cons obtain b1 where "r0 = b1 # rest" "is_continuation b1"
      "cp = (unat b0 - 0xC0) * 0x40 + (unat b1 - 0x80)"
      by (simp split: list.splits if_splits)
    with b Cons show ?thesis by (intro two [of b0 b1]) simp_all
  next
    case c
    with assms Cons obtain b1 b2 where "r0 = b1 # b2 # rest" "second_ok b0 b1"
      "is_continuation b2"
      "cp = (unat b0 - 0xE0) * 0x1000 + (unat b1 - 0x80) * 0x40 + (unat b2 - 0x80)"
      by (simp split: list.splits if_splits)
    with c Cons show ?thesis by (intro three [of b0 b1 b2]) simp_all
  next
    case d
    with assms Cons obtain b1 b2 b3 where "r0 = b1 # b2 # b3 # rest" "second_ok b0 b1"
      "is_continuation b2" "is_continuation b3"
      "cp = (unat b0 - 0xF0) * 0x40000 + (unat b1 - 0x80) * 0x1000
            + (unat b2 - 0x80) * 0x40 + (unat b3 - 0x80)"
      by (simp split: list.splits if_splits)
    with d Cons show ?thesis by (intro four [of b0 b1 b2 b3]) simp_all
  next
    case e
    with assms Cons show ?thesis by simp
  qed
qed

lemma digit_low: "c < 64 \<Longrightarrow> (x * 64 + c) div 64 = x \<and> (x * 64 + c) mod 64 = (c::nat)"
  by simp

lemma cont_split:
  assumes "is_continuation b"
  obtains d where "unat b = 0x80 + d" "d < 64"
proof -
  from assms have "unat b = 0x80 + (unat b - 0x80)" "unat b - 0x80 < 64"
    by (auto simp: is_continuation_def)
  then show ?thesis by (rule that)
qed

lemma byte_of_unat: "(of_nat (unat b) :: byte) = b"
  by simp

lemma two_byte_encode:
  assumes "0xC2 \<le> unat b0" "unat b0 \<le> 0xDF" "is_continuation b1"
    and cp: "cp = (unat b0 - 0xC0) * 0x40 + (unat b1 - 0x80)"
  shows "utf8_encode_cp cp = [b0, b1]" and "scalar cp" and "cp < 0x10000"
proof -
  obtain a where a: "unat b0 = 0xC0 + a" "2 \<le> a" "a \<le> 31"
    using assms(1,2) by (intro that [of "unat b0 - 0xC0"]) auto
  obtain d1 where d1: "unat b1 = 0x80 + d1" "d1 < 64"
    using assms(3) by (rule cont_split)
  have cp': "cp = a * 64 + d1" by (simp add: cp a d1)
  have dm: "cp div 64 = a" "cp mod 64 = d1"
    using digit_low [OF d1(2), of a] by (simp_all add: cp')
  have rng: "\<not> cp < 0x80" "cp < 0x800"
    using a d1 by (simp_all add: cp')
  have "utf8_encode_cp cp = [of_nat (unat b0), of_nat (unat b1)]"
    using rng by (simp add: utf8_encode_cp_def dm a d1 del: of_nat_add of_nat_numeral)
  then show "utf8_encode_cp cp = [b0, b1]" by (simp only: byte_of_unat)
  show "scalar cp" using rng by (simp add: scalar_def)
  show "cp < 0x10000" using rng by simp
qed


lemma digit_mid:
  assumes "d < 64" "c < (64::nat)"
  shows "(x * 4096 + d * 64 + c) div 4096 = x"
    and "(x * 4096 + d * 64 + c) div 64 mod 64 = d"
    and "(x * 4096 + d * 64 + c) mod 64 = c"
proof -
  have low: "d * 64 + c < 4096" using assms by simp
  have "x * 4096 + d * 64 + c = x * 4096 + (d * 64 + c)" by simp
  then show "(x * 4096 + d * 64 + c) div 4096 = x" using low by simp
  have e: "x * 4096 + d * 64 + c = (x * 64 + d) * 64 + c" by simp
  from digit_low [OF assms(2), of "x * 64 + d"]
  have q: "(x * 4096 + d * 64 + c) div 64 = x * 64 + d"
    and r: "(x * 4096 + d * 64 + c) mod 64 = c"
    by (simp_all only: e)
  from digit_low [OF assms(1), of x]
  show "(x * 4096 + d * 64 + c) div 64 mod 64 = d" by (simp only: q)
  show "(x * 4096 + d * 64 + c) mod 64 = c" by (rule r)
qed

lemma digit_high:
  assumes "e < 64" "d < 64" "c < (64::nat)"
  shows "(x * 262144 + e * 4096 + d * 64 + c) div 262144 = x"
    and "(x * 262144 + e * 4096 + d * 64 + c) div 4096 mod 64 = e"
    and "(x * 262144 + e * 4096 + d * 64 + c) div 64 mod 64 = d"
    and "(x * 262144 + e * 4096 + d * 64 + c) mod 64 = c"
proof -
  let ?n = "x * 262144 + e * 4096 + d * 64 + c"
  have low: "e * 4096 + d * 64 + c < 262144" using assms by simp
  have "?n = x * 262144 + (e * 4096 + d * 64 + c)" by simp
  then show "?n div 262144 = x" using low by simp
  have e1: "?n = (x * 64 + e) * 4096 + d * 64 + c" by simp
  from digit_mid [OF assms(2,3), of "x * 64 + e"]
  have q: "?n div 4096 = x * 64 + e" and m: "?n div 64 mod 64 = d" and r: "?n mod 64 = c"
    by (simp_all only: e1)
  from digit_low [OF assms(1), of x]
  show "?n div 4096 mod 64 = e" by (simp only: q)
  show "?n div 64 mod 64 = d" by (rule m)
  show "?n mod 64 = c" by (rule r)
qed

lemma three_byte_encode:
  assumes "0xE0 \<le> unat b0" "unat b0 \<le> 0xEF" "second_ok b0 b1" "is_continuation b2"
    and cp: "cp = (unat b0 - 0xE0) * 0x1000 + (unat b1 - 0x80) * 0x40 + (unat b2 - 0x80)"
  shows "utf8_encode_cp cp = [b0, b1, b2]" and "scalar cp" and "cp < 0x10000"
proof -
  obtain a where a: "unat b0 = 0xE0 + a" "a \<le> 15"
    using assms(1,2) by (intro that [of "unat b0 - 0xE0"]) auto
  have "is_continuation b1"
    using assms(3) by (auto simp: second_ok_def is_continuation_def split: if_splits)
  then obtain d1 where d1: "unat b1 = 0x80 + d1" "d1 < 64" by (rule cont_split)
  obtain d2 where d2: "unat b2 = 0x80 + d2" "d2 < 64"
    using assms(4) by (rule cont_split)
  have lo: "a = 0 \<Longrightarrow> 32 \<le> d1" and hi: "a = 13 \<Longrightarrow> d1 < 32"
    using assms(3) by (auto simp: second_ok_def a d1 split: if_splits)
  have cp': "cp = a * 4096 + d1 * 64 + d2" by (simp add: cp a d1 d2)
  have dm: "cp div 4096 = a" "cp div 64 mod 64 = d1" "cp mod 64 = d2"
    using digit_mid [OF d1(2) d2(2), of a] by (simp_all add: cp')
  have ge: "0x800 \<le> cp"
  proof (cases "a = 0")
    case True
    with lo have "32 \<le> d1" by simp
    then show ?thesis by (simp add: cp')
  next
    case False
    then have "1 \<le> a" by simp
    then show ?thesis by (simp add: cp')
  qed
  have lt: "cp < 0x10000" using a d1 d2 by (simp add: cp')
  have sur: "\<not> (0xD800 \<le> cp \<and> cp \<le> 0xDFFF)"
  proof -
    consider "a \<le> 12" | "a = 13" | "14 \<le> a" by linarith
    then show ?thesis
    proof cases
      case 1
      then show ?thesis using d1 d2 by (simp add: cp')
    next
      case 2
      with hi have "d1 < 32" by simp
      with 2 show ?thesis using d2 by (simp add: cp')
    next
      case 3
      then show ?thesis by (simp add: cp')
    qed
  qed
  have "utf8_encode_cp cp = [of_nat (unat b0), of_nat (unat b1), of_nat (unat b2)]"
    using ge lt by (simp add: utf8_encode_cp_def dm a d1 d2 del: of_nat_add of_nat_numeral)
  then show "utf8_encode_cp cp = [b0, b1, b2]" by (simp only: byte_of_unat)
  show "scalar cp" using lt sur by (simp add: scalar_def)
  show "cp < 0x10000" by (rule lt)
qed

lemma four_byte_encode:
  assumes "0xF0 \<le> unat b0" "unat b0 \<le> 0xF4" "second_ok b0 b1" "is_continuation b2"
    "is_continuation b3"
    and cp: "cp = (unat b0 - 0xF0) * 0x40000 + (unat b1 - 0x80) * 0x1000
                  + (unat b2 - 0x80) * 0x40 + (unat b3 - 0x80)"
  shows "utf8_encode_cp cp = [b0, b1, b2, b3]" and "scalar cp" and "0x10000 \<le> cp"
proof -
  obtain a where a: "unat b0 = 0xF0 + a" "a \<le> 4"
    using assms(1,2) by (intro that [of "unat b0 - 0xF0"]) auto
  have "is_continuation b1"
    using assms(3) by (auto simp: second_ok_def is_continuation_def split: if_splits)
  then obtain d1 where d1: "unat b1 = 0x80 + d1" "d1 < 64" by (rule cont_split)
  obtain d2 where d2: "unat b2 = 0x80 + d2" "d2 < 64"
    using assms(4) by (rule cont_split)
  obtain d3 where d3: "unat b3 = 0x80 + d3" "d3 < 64"
    using assms(5) by (rule cont_split)
  have lo: "a = 0 \<Longrightarrow> 16 \<le> d1" and hi: "a = 4 \<Longrightarrow> d1 < 16"
    using assms(3) by (auto simp: second_ok_def a d1 split: if_splits)
  have cp': "cp = a * 262144 + d1 * 4096 + d2 * 64 + d3" by (simp add: cp a d1 d2 d3)
  have dm: "cp div 262144 = a" "cp div 4096 mod 64 = d1" "cp div 64 mod 64 = d2"
    "cp mod 64 = d3"
    using digit_high [OF d1(2) d2(2) d3(2), of a] by (simp_all add: cp')
  have ge: "0x10000 \<le> cp"
  proof (cases "a = 0")
    case True
    with lo have "16 \<le> d1" by simp
    then show ?thesis by (simp add: cp')
  next
    case False
    then have "1 \<le> a" by simp
    then show ?thesis by (simp add: cp')
  qed
  have lt: "cp < 0x110000"
  proof (cases "a = 4")
    case True
    with hi have "d1 < 16" by simp
    with True show ?thesis using d2 d3 by (simp add: cp')
  next
    case False
    with a have "a \<le> 3" by simp
    then show ?thesis using d1 d2 d3 by (simp add: cp')
  qed
  have "utf8_encode_cp cp = [of_nat (unat b0), of_nat (unat b1), of_nat (unat b2), of_nat (unat b3)]"
    using ge by (simp add: utf8_encode_cp_def dm a d1 d2 d3 del: of_nat_add of_nat_numeral)
  then show "utf8_encode_cp cp = [b0, b1, b2, b3]" by (simp only: byte_of_unat)
  show "scalar cp" using lt ge by (simp add: scalar_def)
  show "0x10000 \<le> cp" by (rule ge)
qed

lemma utf8_next_encode:
  assumes "utf8_next bs = Some (cp, rest)"
  shows "utf8_encode_cp cp @ rest = bs" and "scalar cp"
proof -
  from assms have "utf8_encode_cp cp @ rest = bs \<and> scalar cp"
  proof (cases rule: utf8_next_cases)
    case (one b0)
    then show ?thesis by (simp add: utf8_encode_cp_def scalar_def)
  next
    case (two b0 b1)
    with two_byte_encode [of b0 b1 cp] show ?thesis by simp
  next
    case (three b0 b1 b2)
    with three_byte_encode [of b0 b1 b2 cp] show ?thesis by simp
  next
    case (four b0 b1 b2 b3)
    with four_byte_encode [of b0 b1 b2 b3 cp] show ?thesis by simp
  qed
  then show "utf8_encode_cp cp @ rest = bs" and "scalar cp" by simp_all
qed

subsection \<open>Surrogate pairs\<close>

lemma unat_unit: "n < 0x10000 \<Longrightarrow> unat (of_nat n :: code_unit) = n"
  by (simp add: unat_of_nat)

lemma utf16_decode_unit:
  assumes "\<not> is_high_surrogate u"
  shows "utf16_decode (u # us) = lone_unit u # utf16_decode us"
  using assms by (cases us) simp_all

lemma utf16_decode_pair:
  assumes "is_high_surrogate u" "is_low_surrogate v"
  shows "utf16_decode (u # v # us) = (0x10000 + (unat u - 0xD800) * 0x400 + (unat v - 0xDC00)) # utf16_decode us"
  using assms by simp

lemma utf16_decode_units:
  assumes "scalar cp"
  shows "utf16_decode (utf16_units cp @ us) = cp # utf16_decode us"
proof (cases "cp < 0x10000")
  case True
  then have u: "unat (of_nat cp :: code_unit) = cp" by (rule unat_unit)
  from assms have ns: "\<not> (0xD800 \<le> cp \<and> cp \<le> 0xDFFF)" by (simp add: scalar_def)
  have "\<not> is_high_surrogate (of_nat cp)"
    using ns by (auto simp: is_high_surrogate_def u)
  moreover have "lone_unit (of_nat cp) = cp"
    using ns by (auto simp: lone_unit_def is_high_surrogate_def is_low_surrogate_def u)
  ultimately show ?thesis
    using True by (simp add: utf16_units_def utf16_decode_unit del: of_nat_numeral)
next
  case False
  define t where "t = cp - 0x10000"
  from False assms have cp: "cp = 0x10000 + t" and t: "t < 0x100000"
    by (simp_all add: t_def scalar_def)
  have q: "t div 0x400 < 0x400" using t by simp
  have r: "t mod 0x400 < 0x400" by simp
  have hi: "unat (of_nat (0xD800 + t div 0x400) :: code_unit) = 0xD800 + t div 0x400"
    using q by (intro unat_unit) simp
  have lo: "unat (of_nat (0xDC00 + t mod 0x400) :: code_unit) = 0xDC00 + t mod 0x400"
    using r by (intro unat_unit) simp
  have h: "is_high_surrogate (of_nat (0xD800 + t div 0x400))"
    using q by (simp only: is_high_surrogate_def hi) simp
  have l: "is_low_surrogate (of_nat (0xDC00 + t mod 0x400))"
    using r by (simp only: is_low_surrogate_def lo) simp
  have units: "utf16_units cp = [of_nat (0xD800 + t div 0x400), of_nat (0xDC00 + t mod 0x400)]"
    using False by (simp only: utf16_units_def t_def if_False)
  have rejoin: "0x10000 + (0xD800 + t div 0x400 - 0xD800) * 0x400 + (0xDC00 + t mod 0x400 - 0xDC00) = cp"
    by (simp add: cp)
  show ?thesis
    unfolding units using utf16_decode_pair [OF h l, of us] rejoin
    by (simp only: hi lo append_Cons append_Nil)
qed

lemma utf16_roundtrip: "list_all scalar cps \<Longrightarrow> utf16_decode (utf16_encode cps) = cps"
proof (induction cps)
  case Nil
  show ?case by (simp add: utf16_encode_def)
next
  case (Cons cp cps)
  then have "scalar cp" and "utf16_decode (utf16_encode cps) = cps" by simp_all
  then show ?case
    using utf16_decode_units [of cp "utf16_encode cps"] by (simp add: utf16_encode_def)
qed

subsection \<open>The round trip\<close>

lemma utf8_decode_scalar: "list_all scalar (utf8_decode bs)"
proof (induction bs rule: utf8_decode.induct)
  case (1 bs)
  show ?case
  proof (cases "bs = []")
    case True
    then show ?thesis by (simp add: utf8_decode.simps)
  next
    case ne: False
    show ?thesis
    proof (cases "utf8_next bs")
      case None
      with ne 1 have "list_all scalar (utf8_decode (drop (utf8_skip bs) bs))" by simp
      moreover have "scalar 0xFFFD" by (simp add: scalar_def)
      ultimately show ?thesis
        using ne None by (subst utf8_decode.simps) simp
    next
      case (Some p)
      obtain cp rest where p: "p = (cp, rest)" by (cases p)
      with Some ne 1 have "list_all scalar (utf8_decode rest)" by simp
      moreover from Some p have "scalar cp" by (auto dest: utf8_next_encode(2))
      ultimately show ?thesis
        using ne Some p by (subst utf8_decode.simps) simp
    qed
  qed
qed

lemma utf8_roundtrip: "utf8_wellformed bs \<Longrightarrow> utf8_encode (utf8_decode bs) = bs"
proof (induction bs rule: utf8_wellformed.induct)
  case (1 bs)
  show ?case
  proof (cases "bs = []")
    case True
    then show ?thesis by (simp add: utf8_decode.simps utf8_encode_def)
  next
    case ne: False
    show ?thesis
    proof (cases "utf8_next bs")
      case None
      with ne 1 show ?thesis by (simp add: utf8_wellformed.simps [of bs])
    next
      case (Some p)
      obtain cp rest where p: "p = (cp, rest)" by (cases p)
      from 1 ne Some p have "utf8_wellformed rest"
        by (simp add: utf8_wellformed.simps [of bs])
      with 1 ne Some p have ih: "utf8_encode (utf8_decode rest) = rest" by simp
      have "utf8_decode bs = cp # utf8_decode rest"
        using ne Some p by (subst utf8_decode.simps) simp
      then have "utf8_encode (utf8_decode bs) = utf8_encode_cp cp @ rest"
        using ih by (simp add: utf8_encode_def)
      also have "\<dots> = bs" using Some p by (auto dest: utf8_next_encode(1))
      finally show ?thesis .
    qed
  qed
qed

lemma latin1_roundtrip: "map (ucast :: code_unit \<Rightarrow> byte) (map (ucast :: byte \<Rightarrow> code_unit) bs) = bs"
proof -
  have "(ucast (ucast b :: code_unit) :: byte) = b" for b :: byte
    by (rule ucast_up_ucast_id) (simp add: is_up)
  then show ?thesis by (induction bs) simp_all
qed

text \<open>
  Claim C1. For every byte sequence, converting it to text with the encoding chosen for
  it and converting that text back with the same encoding gives the byte sequence back:
  the buffer that an unchanged editor text sends to \<^verbatim>\<open>props.onChange\<close> is the body.
\<close>

theorem text_round_trip:
  "stringToBuffer (bufferToString b (textEncoding b)) (textEncoding b) = b
   \<and> onBodyChange b (bodyString b) = b"
proof -
  have "stringToBuffer (bufferToString b (textEncoding b)) (textEncoding b) = b"
  proof (cases "isProbablyUtf8 b")
    case True
    then have wf: "utf8_wellformed b" by (simp add: isProbablyUtf8_def)
    have "utf16_decode (utf16_encode (utf8_decode b)) = utf8_decode b"
      by (rule utf16_roundtrip) (rule utf8_decode_scalar)
    with wf True show ?thesis
      by (simp add: textEncoding_def bufferToString_def stringToBuffer_def utf8_roundtrip)
  next
    case False
    then show ?thesis
      using latin1_roundtrip [of b]
      by (simp add: textEncoding_def bufferToString_def stringToBuffer_def del: map_map)
  qed
  then show ?thesis by (simp add: onBodyChange_def bodyString_def)
qed



text \<open>
  The mapping at two small bodies: the two bytes of U+00E9 are text and are shown as one
  character; the byte FF is not UTF-8 and is shown as the character with the same number.
\<close>

lemma example_e_acute: "utf8_next [0xC3, 0xA9] = Some (0xE9, [])"
  by (simp add: is_continuation_def)

lemma example_stray: "utf8_next [0xFF] = None"
  by simp

lemma encoding_examples:
  "textEncoding [0xC3, 0xA9] = Utf8 \<and> bodyString [0xC3, 0xA9] = [0xE9]
   \<and> onBodyChange [0xC3, 0xA9] [0xE9] = [0xC3, 0xA9]
   \<and> textEncoding [0xFF] = Binary \<and> bodyString [0xFF] = [0xFF]
   \<and> onBodyChange [0xFF] [0xFF] = [0xFF]"
proof -
  have wf: "utf8_wellformed [0xC3, 0xA9]"
    by (simp add: utf8_wellformed.simps [of "[0xC3, 0xA9]"] utf8_wellformed.simps [of "[]"]
        is_continuation_def)
  have nwf: "\<not> utf8_wellformed [0xFF]"
    by (simp add: utf8_wellformed.simps [of "[0xFF]"] example_stray)
  have u: "textEncoding [0xC3, 0xA9] = Utf8"
    using wf by (simp add: textEncoding_def isProbablyUtf8_def control_dominated_def
        is_control_def)
  have b: "textEncoding [0xFF] = Binary"
    using nwf by (simp add: textEncoding_def isProbablyUtf8_def)
  have dec: "utf8_decode [0xC3, 0xA9] = [0xE9]"
    by (simp add: utf8_decode.simps [of "[0xC3, 0xA9]"] utf8_decode.simps [of "[]"]
        is_continuation_def)
  have s: "bodyString [0xC3, 0xA9] = [0xE9]"
    by (simp add: bodyString_def u bufferToString_def dec utf16_encode_def utf16_units_def)
  have rt: "onBodyChange [0xC3, 0xA9] [0xE9] = [0xC3, 0xA9]"
    by (simp add: onBodyChange_def u stringToBuffer_def lone_unit_def is_high_surrogate_def
        is_low_surrogate_def utf8_encode_def utf8_encode_cp_def)
  have s2: "bodyString [0xFF] = [0xFF]"
    by (simp add: bodyString_def b bufferToString_def)
  have rt2: "onBodyChange [0xFF] [0xFF] = [0xFF]"
    by (simp add: onBodyChange_def b stringToBuffer_def)
  from u s rt b s2 rt2 show ?thesis by (intro conjI)
qed

lemma filter_all: "\<forall>x\<in>set xs. P x \<Longrightarrow> filter P xs = xs"
  by (induction xs) auto

text \<open>
  Claim C8. The classification is a total function with the two encodings as its values;
  the empty byte sequence is classified as UTF-8, and a non-empty sequence of null bytes
  as binary.
\<close>

theorem classify_total:
  "(textEncoding b = Utf8 \<or> textEncoding b = Binary)
   \<and> textEncoding [] = Utf8
   \<and> (bs \<noteq> [] \<and> set bs \<subseteq> {0} \<longrightarrow> textEncoding bs = Binary)"
proof -
  have a: "textEncoding b = Utf8 \<or> textEncoding b = Binary"
    by (cases "textEncoding b") simp_all
  have e: "textEncoding [] = Utf8"
    by (simp add: textEncoding_def isProbablyUtf8_def utf8_wellformed.simps
        control_dominated_def)
  have n: "textEncoding bs = Binary" if ne: "bs \<noteq> []" and z: "set bs \<subseteq> {0}"
  proof -
    have "is_control 0" by (simp add: is_control_def)
    with z have "filter is_control bs = bs" by (intro filter_all) auto
    with ne have "control_dominated bs" by (simp add: control_dominated_def)
    then show ?thesis by (simp add: textEncoding_def isProbablyUtf8_def)
  qed
  from a e n show ?thesis by blast
qed

theorem classify_total_witness:
  "([0, 0, 0] :: byte list) \<noteq> [] \<and> set ([0, 0, 0] :: byte list) \<subseteq> {0}
   \<and> textEncoding [0, 0, 0] = Binary
   \<and> textEncoding [] = Utf8"
proof -
  have h: "([0, 0, 0] :: byte list) \<noteq> [] \<and> set ([0, 0, 0] :: byte list) \<subseteq> {0}"
    by simp
  with classify_total [of "[]" "[0, 0, 0]"] show ?thesis by simp
qed

subsection \<open>The content-type reaction and the format button\<close>

lemma fold_rawHeadersChanged:
  assumes "observed st = Some (hv r0 ''content-type'')"
    and "card_contentType st = or_text (G (hv r0 ''content-type''))"
  shows "card_contentType (foldl (\<lambda>s r. rawHeadersChanged G hv r s) st rs)
           = or_text (G (hv (last (r0 # rs)) ''content-type''))"
  using assms
proof (induction rs arbitrary: st r0)
  case Nil
  then show ?case by simp
next
  case (Cons r rs)
  let ?st = "rawHeadersChanged G hv r st"
  have o: "observed ?st = Some (hv r ''content-type'')"
    using Cons.prems(1) by (simp add: rawHeadersChanged_def Let_def reaction_effect_def)
  have c: "card_contentType ?st = or_text (G (hv r ''content-type''))"
    using Cons.prems by (simp add: rawHeadersChanged_def Let_def reaction_effect_def)
  from Cons.IH [OF o c] show ?case by simp
qed

text \<open>
  Claim C5. Mounting the card runs the effect at once: the editable content type becomes
  the one the content-type header maps to, or text when it maps to none. While the
  reaction runs, every change of the header value runs the effect again in the same
  step, on the new value; so after any sequence of header updates the editable content
  type is the one of the last header value, with no remount.
\<close>

theorem header_reaction_tracks:
  "card_contentType (breakpoint_componentDidMount G hv r0 st) = or_text (G (hv r0 ''content-type''))
   \<and> observed (breakpoint_componentDidMount G hv r0 st) = Some (hv r0 ''content-type'')
   \<and> (observed st = Some old \<and> hv r ''content-type'' \<noteq> old \<longrightarrow>
        card_contentType (rawHeadersChanged G hv r st) = or_text (G (hv r ''content-type''))
        \<and> observed (rawHeadersChanged G hv r st) = Some (hv r ''content-type''))
   \<and> card_contentType
        (foldl (\<lambda>s r. rawHeadersChanged G hv r s) (breakpoint_componentDidMount G hv r0 st) rs)
        = or_text (G (hv (last (r0 # rs)) ''content-type''))
   \<and> (G (hv r0 ''content-type'') = None \<longrightarrow>
        card_contentType (breakpoint_componentDidMount G hv r0 st) = ''text'')"
proof -
  have m1: "card_contentType (breakpoint_componentDidMount G hv r0 st)
      = or_text (G (hv r0 ''content-type''))"
    by (simp add: breakpoint_componentDidMount_def Let_def reaction_effect_def)
  have m2: "observed (breakpoint_componentDidMount G hv r0 st) = Some (hv r0 ''content-type'')"
    by (simp add: breakpoint_componentDidMount_def Let_def reaction_effect_def)
  have ch: "observed st = Some old \<and> hv r ''content-type'' \<noteq> old \<longrightarrow>
        card_contentType (rawHeadersChanged G hv r st) = or_text (G (hv r ''content-type''))
        \<and> observed (rawHeadersChanged G hv r st) = Some (hv r ''content-type'')"
    by (simp add: rawHeadersChanged_def Let_def reaction_effect_def)
  have tr: "card_contentType
        (foldl (\<lambda>s r. rawHeadersChanged G hv r s) (breakpoint_componentDidMount G hv r0 st) rs)
        = or_text (G (hv (last (r0 # rs)) ''content-type''))"
    using m2 m1
    by (rule fold_rawHeadersChanged
        [where st = "breakpoint_componentDidMount G hv r0 st" and hv = hv and ?r0.0 = r0
          and G = G and rs = rs])
  have tx: "G (hv r0 ''content-type'') = None \<longrightarrow>
        card_contentType (breakpoint_componentDidMount G hv r0 st) = ''text''"
    by (simp add: m1 or_text_def)
  from m1 m2 ch tr tx show ?thesis
    apply -
    apply (intro conjI)
        apply assumption+
    done
qed

theorem header_reaction_tracks_witness:
  "observed (breakpoint_componentDidMount example_getEditableContentType (\<lambda>r k. r)
       (Some ''text/plain'') initial_card_state) = Some (Some ''text/plain'')
   \<and> Some ''application/json'' \<noteq> Some ''text/plain''
   \<and> card_contentType (rawHeadersChanged example_getEditableContentType (\<lambda>r k. r)
        (Some ''application/json'')
        (breakpoint_componentDidMount example_getEditableContentType (\<lambda>r k. r)
           (Some ''text/plain'') initial_card_state)) = ''json''
   \<and> example_getEditableContentType (Some ''image/png'') = None
   \<and> card_contentType (breakpoint_componentDidMount example_getEditableContentType (\<lambda>r k. r)
        (Some ''image/png'') initial_card_state) = ''text''"
proof -
  let ?G = example_getEditableContentType
  let ?hv = "\<lambda>(r :: string option) (k :: string). r"
  let ?st = "breakpoint_componentDidMount ?G ?hv (Some ''text/plain'') initial_card_state"
  note mounted = header_reaction_tracks [of ?G ?hv "Some ''text/plain''" initial_card_state
      "Some ''text/plain''" "Some ''application/json''" "[]"]
  note changed = header_reaction_tracks [of ?G ?hv "Some ''text/plain''" ?st
      "Some ''text/plain''" "Some ''application/json''" "[]"]
  note other = header_reaction_tracks [of ?G ?hv "Some ''image/png''" initial_card_state
      "Some ''text/plain''" "Some ''application/json''" "[]"]
  have o: "observed ?st = Some (Some ''text/plain'')"
    using mounted [THEN conjunct2, THEN conjunct1] .
  have ne: "Some ''application/json'' \<noteq> Some ''text/plain''" by simp
  have "card_contentType (rawHeadersChanged ?G ?hv (Some ''application/json'') ?st)
      = or_text (?G (Some ''application/json''))"
    using changed [THEN conjunct2, THEN conjunct2, THEN conjunct1, rule_format, OF conjI, OF o ne]
    by (rule conjunct1)
  then have j: "card_contentType (rawHeadersChanged ?G ?hv (Some ''application/json'') ?st)
      = ''json''"
    by (simp only: example_getEditableContentType_def or_text_def) simp
  have n: "?G (Some ''image/png'') = None" by (simp add: example_getEditableContentType_def)
  have t: "card_contentType (breakpoint_componentDidMount ?G ?hv (Some ''image/png'')
      initial_card_state) = ''text''"
    using other [THEN conjunct2, THEN conjunct2, THEN conjunct2, THEN conjunct2, rule_format, OF n] .
  from o ne j n t show ?thesis
    apply -
    apply (intro conjI)
        apply assumption+
    done
qed

text \<open>
  Claim C9. A format request whose formatter rejects the body gives the formatter's
  error and passes no buffer on, so the body and the text in the editor stay as they
  were; a format request whose formatter gives a text passes on the very buffer that the
  editor's change handler passes on for that text.
\<close>

theorem format_request_outcome:
  "(formatter (card_contentType st) buf = Inl e \<longrightarrow>
       onFormatRequested formatter buf st = Inl e
       \<and> body_after buf (onFormatRequested formatter buf st) = buf
       \<and> bodyString (body_after buf (onFormatRequested formatter buf st)) = bodyString buf)
   \<and> (formatter (card_contentType st) buf = Inr formatted \<longrightarrow>
       onFormatRequested formatter buf st
         = Inr (editor_onChange (breakpoint_editor_props buf st) formatted)
       \<and> onFormatRequested formatter buf st = Inr (onBodyChange buf formatted))"
  by (simp add: onFormatRequested_def FormatButton_click_def EditableBodyCardHeader_def
      breakpoint_header_props_def breakpoint_editor_props_def body_after_def)

theorem format_request_outcome_witness:
  "rejecting_formatter (card_contentType initial_card_state) [0x7B, 0x61, 0x3A, 0x7D]
     = Inl (FormatError ''malformed'')
   \<and> onFormatRequested rejecting_formatter [0x7B, 0x61, 0x3A, 0x7D] initial_card_state
     = Inl (FormatError ''malformed'')
   \<and> body_after [0x7B, 0x61, 0x3A, 0x7D]
       (onFormatRequested rejecting_formatter [0x7B, 0x61, 0x3A, 0x7D] initial_card_state)
     = [0x7B, 0x61, 0x3A, 0x7D]
   \<and> (\<lambda>t b. Inr [0x61]) (card_contentType initial_card_state) [0x7B, 0x61, 0x3A, 0x7D]
     = (Inr [0x61] :: FormatError + js_string)
   \<and> onFormatRequested (\<lambda>t b. Inr [0x61]) [0x7B, 0x61, 0x3A, 0x7D] initial_card_state
     = Inr (onBodyChange [0x7B, 0x61, 0x3A, 0x7D] [0x61])"
proof -
  let ?b = "[0x7B, 0x61, 0x3A, 0x7D] :: byte list"
  let ?ok = "(\<lambda>t b. Inr [0x61]) :: EditableContentType \<Rightarrow> byte list \<Rightarrow> FormatError + js_string"
  have r: "rejecting_formatter (card_contentType initial_card_state) ?b
     = Inl (FormatError ''malformed'')"
    by (simp add: rejecting_formatter_def)
  have s: "?ok (card_contentType initial_card_state) ?b = Inr [0x61]" by simp
  from format_request_outcome [of rejecting_formatter initial_card_state ?b
      "FormatError ''malformed''"] r
  have 1: "onFormatRequested rejecting_formatter ?b initial_card_state
       = Inl (FormatError ''malformed'')"
    and 2: "body_after ?b (onFormatRequested rejecting_formatter ?b initial_card_state) = ?b"
    by blast+
  from format_request_outcome [of ?ok initial_card_state ?b _ "[0x61]"] s
  have 3: "onFormatRequested ?ok ?b initial_card_state = Inr (onBodyChange ?b [0x61])"
    by blast
  from r 1 2 s 3 show ?thesis by blast
qed

end
